theory Spec2Isabelle
  imports Complex_Main "HOL-Library.Sublist"
begin

section \<open>Python strings\<close>

text \<open>
  A Python \<open>str\<close> is a sequence of Unicode code points, and the response parser looks for
  the bullet U+2022, which is no 8-bit character. A string is therefore modelled as the
  list of its code points; \<open>ustr\<close> turns an ASCII literal into one.
\<close>

type_synonym pystr = "nat list"

definition ustr :: "string \<Rightarrow> pystr" where
  "ustr s = map of_char s"

text \<open>The code points \<open>str.isspace\<close> accepts, which \<open>str.strip()\<close> and \<open>str.split()\<close> remove.\<close>

definition is_space :: "nat \<Rightarrow> bool" where
  "is_space c \<longleftrightarrow>
     (9 \<le> c \<and> c \<le> 13) \<or> (28 \<le> c \<and> c \<le> 32) \<or> c = 133 \<or> c = 160 \<or> c = 5760 \<or>
     (8192 \<le> c \<and> c \<le> 8202) \<or> c = 8232 \<or> c = 8233 \<or> c = 8239 \<or> c = 8287 \<or> c = 12288"

definition lstrip :: "pystr \<Rightarrow> pystr" where
  "lstrip s = dropWhile is_space s"

definition rstrip :: "pystr \<Rightarrow> pystr" where
  "rstrip s = rev (dropWhile is_space (rev s))"

definition strip :: "pystr \<Rightarrow> pystr" where
  "strip s = rstrip (lstrip s)"

text \<open>\<open>s.lstrip(chars)\<close> and \<open>s.rstrip(chars)\<close> with an explicit set of characters.\<close>

definition lstrip_chars :: "pystr \<Rightarrow> pystr \<Rightarrow> pystr" where
  "lstrip_chars chars s = dropWhile (\<lambda>c. c \<in> set chars) s"

definition rstrip_chars :: "pystr \<Rightarrow> pystr \<Rightarrow> pystr" where
  "rstrip_chars chars s = rev (dropWhile (\<lambda>c. c \<in> set chars) (rev s))"

definition startswith :: "pystr \<Rightarrow> pystr \<Rightarrow> bool" where
  "startswith s p = prefix p s"

text \<open>\<open>sub in s\<close>: the substring test.\<close>

fun contains :: "'a list \<Rightarrow> 'a list \<Rightarrow> bool" where
  "contains sub [] = (sub = [])"
| "contains sub (c # cs) = (prefix sub (c # cs) \<or> contains sub cs)"

text \<open>
  \<open>cut sep s\<close> finds the leftmost occurrence of \<open>sep\<close> in \<open>s\<close> and returns the text before
  it and the text after it. \<open>s.split(sep)\<close> cuts again and again, left to right. Every
  call site passes a non-empty literal separator (Python raises ValueError on an empty
  one); on an empty separator the model returns the text unsplit.
\<close>

fun cut :: "'a list \<Rightarrow> 'a list \<Rightarrow> ('a list \<times> 'a list) option" where
  "cut sep [] = None"
| "cut sep (c # cs) =
     (if prefix sep (c # cs) then Some ([], drop (length sep) (c # cs))
      else case cut sep cs of None \<Rightarrow> None | Some (b, a) \<Rightarrow> Some (c # b, a))"

function str_split :: "'a list \<Rightarrow> 'a list \<Rightarrow> 'a list list" where
  "str_split sep s =
     (if sep = [] then [s]
      else case cut sep s of None \<Rightarrow> [s] | Some (b, a) \<Rightarrow> b # str_split sep a)"
  by pat_completeness auto
termination
proof (relation "measure (\<lambda>(sep, s). length s)")
  fix sep s :: "'a list" and x b a
  assume sep: "sep \<noteq> []" and c: "cut sep s = Some x" and x: "(b, a) = x"
  have "cut sep s = Some (b, a) \<Longrightarrow> length a < length s" for s b
  proof (induction s arbitrary: b)
    case Nil
    then show ?case by simp
  next
    case (Cons c cs)
    show ?case
    proof (cases "prefix sep (c # cs)")
      case True
      with Cons.prems sep show ?thesis by (cases sep) auto
    next
      case False
      with Cons.prems obtain b' where "cut sep cs = Some (b', a)"
        by (auto split: option.splits)
      with Cons.IH show ?thesis by fastforce
    qed
  qed
  with c x show "((sep, a), (sep, s)) \<in> measure (\<lambda>(sep, s). length s)" by auto
qed simp

declare str_split.simps [simp del]

text \<open>\<open>sep.join(parts)\<close>.\<close>

fun str_join :: "'a list \<Rightarrow> 'a list list \<Rightarrow> 'a list" where
  "str_join sep [] = []"
| "str_join sep [p] = p"
| "str_join sep (p # q # ps) = p @ sep @ str_join sep (q # ps)"

text \<open>
  \<open>s.split()\<close> without a separator: the maximal runs of characters that are not white
  space, in order; \<open>w\<close> holds the run being read, reversed.
\<close>

fun split_ws_from :: "pystr \<Rightarrow> pystr \<Rightarrow> pystr list" where
  "split_ws_from w [] = (if w = [] then [] else [rev w])"
| "split_ws_from w (c # cs) =
     (if is_space c then (if w = [] then split_ws_from [] cs else rev w # split_ws_from [] cs)
      else split_ws_from (c # w) cs)"

definition split_ws :: "pystr \<Rightarrow> pystr list" where
  "split_ws s = split_ws_from [] s"

text \<open>
  \<open>str.lower()\<close> and \<open>str.upper()\<close>. On a text of ASCII characters (\<open>str.isascii()\<close>) Python
  changes the letters A-Z, or a-z, and nothing else, which is what these two functions
  compute. The case tables of the other code points belong to the Python runtime and are
  not modelled: the functions leave such code points as they are, and a theorem that
  spells out an upper- or lower-cased text does so for an ASCII text only.
\<close>

definition is_ascii :: "pystr \<Rightarrow> bool" where
  "is_ascii s = list_all (\<lambda>c. c < 128) s"

definition str_lower :: "pystr \<Rightarrow> pystr" where
  "str_lower s = map (\<lambda>c. if 65 \<le> c \<and> c \<le> 90 then c + 32 else c) s"

definition str_upper :: "pystr \<Rightarrow> pystr" where
  "str_upper s = map (\<lambda>c. if 97 \<le> c \<and> c \<le> 122 then c - 32 else c) s"

text \<open>\<open>str(n)\<close> for a natural number: its decimal digits.\<close>

function str_nat :: "nat \<Rightarrow> pystr" where
  "str_nat n = (if n < 10 then [48 + n] else str_nat (n div 10) @ [48 + n mod 10])"
  by pat_completeness auto
termination
  by (relation "measure id") auto

declare str_nat.simps [simp del]

text \<open>\<open>xs[i]\<close> raises IndexError out of range; the model returns \<open>None\<close> there.\<close>

definition index :: "'a list \<Rightarrow> nat \<Rightarrow> 'a option" where
  "index xs i = (if i < length xs then Some (xs ! i) else None)"

section \<open>The response parser\<close>

definition next_actions_marker :: pystr where
  "next_actions_marker = ustr ''NEXT ACTIONS:''"

definition answer_marker :: pystr where
  "answer_marker = ustr ''ANSWER:''"

definition bullet :: nat where
  "bullet = 8226"

definition default_next_actions :: "pystr list" where
  "default_next_actions =
     [ustr ''Review full clinical context'',
      ustr ''Document assessment in patient record'',
      ustr ''Follow up as clinically appropriate'']"

text \<open>The loop over the lines of the actions section; \<open>acc\<close> is \<open>next_actions\<close> so far.\<close>

fun collect_actions :: "pystr list \<Rightarrow> pystr list \<Rightarrow> pystr list" where
  "collect_actions [] acc = acc"
| "collect_actions (l # ls) acc =
     (let line = strip l in
      if startswith line (ustr ''-'') \<or> startswith line [bullet] then
        (let action = strip (lstrip_chars [45, bullet] line) in
         if action \<noteq> [] then collect_actions ls (acc @ [action])
         else collect_actions ls acc)
      else collect_actions ls acc)"

text \<open>
  \<open>_parse_llm_response\<close>. The result is \<open>None\<close> where the Python would raise: the only
  operations of the function that can raise are the list subscripts. Both branches
  extract the answer with the same four lines, which are \<open>extract_answer\<close> here.
\<close>

definition extract_answer :: "pystr \<Rightarrow> pystr option" where
  "extract_answer t =
     (if contains answer_marker t
      then map_option strip (index (str_split answer_marker t) 1)
      else Some (strip t))"

definition parse_llm_response :: "pystr \<Rightarrow> (pystr \<times> pystr list) option" where
  "parse_llm_response response_text =
     (if contains next_actions_marker response_text then
        (let parts = str_split next_actions_marker response_text in
         case index parts 0 of
           None \<Rightarrow> None
         | Some answer_part \<Rightarrow>
             (case (if length parts > 1 then index parts 1 else Some []) of
                None \<Rightarrow> None
              | Some actions_part \<Rightarrow>
                  (case extract_answer answer_part of
                     None \<Rightarrow> None
                   | Some answer \<Rightarrow>
                       Some (answer, collect_actions (str_split [10] (strip actions_part)) []))))
      else
        (case extract_answer response_text of
           None \<Rightarrow> None
         | Some answer \<Rightarrow> Some (answer, default_next_actions)))"

text \<open>
  The layout the prompt asks the model for, with an answer and two actions filled in:
  the text whose parse the round trip is about.
\<close>

definition documented_layout :: "pystr \<Rightarrow> pystr \<Rightarrow> pystr \<Rightarrow> pystr" where
  "documented_layout A x y =
     ustr ''ANSWER: '' @ A @ ustr ''\<newline>\<newline>NEXT ACTIONS:\<newline>- '' @ x @ ustr ''\<newline>- '' @ y"

section \<open>Data model\<close>

text \<open>
  An exception is a value. \<open>External\<close> is a failure of a collaborator (database, JSON
  decoder, hosted model) with its message; the others are raised by the code itself.
\<close>

datatype error = External pystr | TypeError | AttributeError | IndexError | ValidationError

datatype json =
    JNull | JBool bool | JNum real | JStr pystr | JArr "json list" | JObj "(pystr \<times> json) list"

text \<open>\<open>CopilotSource\<close>.\<close>

record source =
  source_type :: pystr
  source_id :: int
  label :: pystr
  snippet :: pystr
  score :: real
  metadata :: "(pystr \<times> json) list option"

text \<open>
  A row of the \<open>retrieve_context\<close> SQL function as the driver delivers it. The query
  names its six columns, so every key is there; a column may hold NULL (\<open>None\<close>). The
  metadata column arrives as NULL, as JSON text or as a decoded value.
\<close>

datatype column_meta = Meta_null | Meta_text pystr | Meta_value json

record row =
  row_source_type :: "pystr option"
  row_source_id :: "int option"
  row_label :: "pystr option"
  row_snippet :: "pystr option"
  row_score :: "real option"
  row_metadata :: column_meta

text \<open>The dictionary \<open>retrieve_context\<close> builds for each row.\<close>

record result =
  res_source_type :: "pystr option"
  res_source_id :: "int option"
  res_label :: "pystr option"
  res_snippet :: "pystr option"
  res_score :: real
  res_metadata :: json

record settings =
  azure_openai_endpoint :: "pystr option"
  azure_openai_key :: "pystr option"
  azure_openai_chat_deployment :: pystr

text \<open>\<open>bool(endpoint and key)\<close>: \<open>None\<close> and the empty string are both false.\<close>

definition has_azure_openai :: "settings \<Rightarrow> bool" where
  "has_azure_openai s \<longleftrightarrow>
     (case azure_openai_endpoint s of
        None \<Rightarrow> False
      | Some e \<Rightarrow> e \<noteq> [] \<and> (case azure_openai_key s of None \<Rightarrow> False | Some k \<Rightarrow> k \<noteq> []))"

text \<open>
  A request to the Responses API. The instructions, the output bound and the temperature
  are the same constants on every call and are left out.
\<close>

record llm_request =
  req_model :: pystr
  req_input :: pystr

datatype api_event = Output_text_delta pystr | Other_api_event

text \<open>What the synchronous path does to the hosted model, in order.\<close>

datatype hosted_call = New_client "pystr option" pystr | Responses_create llm_request

text \<open>
  The row of the patient lookup. The query names \<open>display_name\<close>, so the default of
  \<open>patient.get("display_name", "the patient")\<close> is never taken; the column holds text.
\<close>

record patient =
  display_name :: pystr

record copilot_request =
  question :: pystr
  max_sources :: int

record copilot_response =
  answer :: pystr
  next_actions :: "pystr list"
  sources :: "source list"
  model_used :: "pystr option"
  retrieval_method :: pystr

text \<open>
  The collaborators of one request: the settings, the two database calls, the JSON
  decoder and the hosted model. Each is called at most once per request, so a function of
  its arguments says what it returns or raises. A streamed completion is the list of
  events received and the exception that ended the iteration, if one did.
\<close>

record env =
  get_settings :: settings
  execute_one :: "pystr \<Rightarrow> error + patient option"
  execute_query :: "pystr \<Rightarrow> pystr \<Rightarrow> int \<Rightarrow> error + row list"
  json_loads :: "pystr \<Rightarrow> error + json"
  new_client :: "pystr option \<Rightarrow> pystr \<Rightarrow> error option"
  responses_create :: "llm_request \<Rightarrow> error + pystr"
  responses_stream :: "llm_request \<Rightarrow> error + (api_event list \<times> error option)"

text \<open>
  A server-sent event, by its \<open>event:\<close> name and the fields of its JSON payload; the
  \<open>error\<close> event carries the exception whose message it prints.
\<close>

datatype event =
    Source_event source
  | Metadata_event pystr
  | Delta_event pystr
  | Actions_event "pystr list"
  | Done_event "pystr option" pystr
  | Error_event error

datatype event_type = Source | Metadata | Delta | Actions | Done | Error

fun type_of :: "event \<Rightarrow> event_type" where
  "type_of (Source_event s) = Source"
| "type_of (Metadata_event m) = Metadata"
| "type_of (Delta_event t) = Delta"
| "type_of (Actions_event a) = Actions"
| "type_of (Done_event m r) = Done"
| "type_of (Error_event e) = Error"

datatype fault = Http_404 pystr | Http_500 error | Unhandled error

section \<open>The prompt builder\<close>

text \<open>One entry of \<open>context_parts\<close>; \<open>i\<close> is the index \<open>enumerate(sources, 1)\<close> gives.\<close>

definition render_source :: "nat \<Rightarrow> source \<Rightarrow> pystr" where
  "render_source i s =
     ustr ''[Source '' @ str_nat i @ ustr '' - '' @ str_upper (source_type s) @ ustr ''] '' @
     label s @ ustr '':\<newline>'' @ snippet s"

fun context_parts_from :: "nat \<Rightarrow> source list \<Rightarrow> pystr list \<Rightarrow> pystr list" where
  "context_parts_from i [] context_parts = context_parts"
| "context_parts_from i (s # ss) context_parts =
     context_parts_from (i + 1) ss (context_parts @ [render_source i s])"

definition no_context :: pystr where
  "no_context = ustr ''No relevant context found.''"

definition prompt_tail :: pystr where
  "prompt_tail =
     ustr ''\<newline>\<newline>Please provide:\<newline>1. A direct answer to the question based on the context\<newline>'' @
     ustr ''2. 2-3 recommended next actions for the care team\<newline>\<newline>Format your response as:\<newline>'' @
     ustr ''ANSWER: [Your answer here with citations]\<newline>\<newline>NEXT ACTIONS:\<newline>'' @
     ustr ''- [Action 1]\<newline>- [Action 2]\<newline>- [Action 3]''"

definition build_context_and_prompt :: "pystr \<Rightarrow> pystr \<Rightarrow> source list \<Rightarrow> pystr \<times> pystr" where
  "build_context_and_prompt q patient_name srcs =
     (let context_parts = context_parts_from 1 srcs [];
          context = (if context_parts \<noteq> [] then str_join (ustr ''\<newline>\<newline>'') context_parts
                     else no_context);
          user_input =
            ustr ''Patient: '' @ patient_name @ ustr ''\<newline>\<newline>Question: '' @ q @
            ustr ''\<newline>\<newline>Relevant Context:\<newline>'' @ context @ prompt_tail
      in (context, user_input))"

section \<open>The template backend\<close>

definition cited_line :: "source \<Rightarrow> pystr" where
  "cited_line s =
     ustr ''- '' @ label s @ ustr '': '' @ snippet s @ ustr '' [Source: '' @ source_type s @ ustr '']''"

definition plain_line :: "source \<Rightarrow> pystr" where
  "plain_line s = ustr ''- '' @ label s @ ustr '': '' @ snippet s"

text \<open>\<open>_template_changes_response\<close>; each \<open>parts\<close> is the list after one more block.\<close>

definition template_changes_response ::
  "pystr \<Rightarrow> source list \<Rightarrow> source list \<Rightarrow> source list \<Rightarrow> pystr" where
  "template_changes_response patient_name notes labs meds =
     (let parts0 = [ustr ''Based on the available records for '' @ patient_name @
                    ustr '', here are the key changes:\<newline>''];
          parts1 = (if meds \<noteq> []
                    then parts0 @ [ustr ''**Medication Changes:**''] @ map cited_line (take 3 meds)
                    else parts0);
          parts2 = (if labs \<noteq> []
                    then parts1 @ [ustr ''\<newline>**Lab Results:**''] @ map cited_line (take 3 labs)
                    else parts1);
          parts3 = (if notes \<noteq> []
                    then parts2 @ [ustr ''\<newline>**Clinical Notes:**'',
                                   ustr ''- '' @ str_nat (length notes) @
                                   ustr '' relevant clinical notes found documenting recent care'']
                    else parts2);
          parts4 = (if \<not> (meds \<noteq> [] \<or> labs \<noteq> [] \<or> notes \<noteq> [])
                    then parts3 @ [ustr ''Limited information available in the retrieved context.'']
                    else parts3)
      in str_join [10] parts4)"

text \<open>\<open>_template_medication_response\<close>.\<close>

definition mentions :: "string \<Rightarrow> pystr \<Rightarrow> bool" where
  "mentions word s = contains (ustr word) (str_lower s)"

definition template_medication_response ::
  "pystr \<Rightarrow> source list \<Rightarrow> source list \<Rightarrow> source list \<Rightarrow> pystr" where
  "template_medication_response patient_name meds labs notes =
     (let parts0 = [ustr ''Regarding medication management for '' @ patient_name @ ustr '':\<newline>''];
          med_info = find (\<lambda>med. mentions ''lisinopril'' (label med) \<or>
                                   mentions ''lisinopril'' (snippet med)) meds
      in case med_info of
           Some m \<Rightarrow>
             (let parts1 = parts0 @ [ustr ''**Medication Record:** '' @ snippet m];
                  k_lab = find (\<lambda>l. mentions ''potassium'' (label l) \<or> mentions ''k'' (label l)) labs;
                  cr_lab = find (\<lambda>l. mentions ''creatinine'' (label l) \<or> mentions ''egfr'' (label l)) labs;
                  parts2 = (if k_lab \<noteq> None \<or> cr_lab \<noteq> None
                            then parts1 @ [ustr ''\<newline>**Related Lab Values:**''] @
                                 (case k_lab of None \<Rightarrow> []
                                  | Some k \<Rightarrow> [ustr ''- '' @ label k @ ustr '': '' @ snippet k]) @
                                 (case cr_lab of None \<Rightarrow> []
                                  | Some c \<Rightarrow> [ustr ''- '' @ label c @ ustr '': '' @ snippet c])
                            else parts1);
                  parts3 = (if notes \<noteq> []
                            then parts2 @ [ustr ''\<newline>**Clinical Documentation:** Found '' @
                                           str_nat (length notes) @
                                           ustr '' relevant notes discussing this decision'']
                            else parts2)
              in str_join [10] parts3)
         | None \<Rightarrow>
             str_join [10]
               (parts0 @ [ustr ''Specific medication details found in the following sources:''] @
                map plain_line (take 3 meds)))"

text \<open>\<open>_template_risk_response\<close>.\<close>

definition template_risk_response :: "pystr \<Rightarrow> source list \<Rightarrow> pystr" where
  "template_risk_response patient_name srcs =
     str_join [10]
       ([ustr ''Risk assessment for '' @ patient_name @ ustr '':\<newline>'',
         ustr ''**Top Clinical Considerations:**'',
         ustr ''1. **Kidney Function Monitoring** - CKD Stage 3a requires close monitoring'',
         ustr ''2. **Glycemic Control** - A1C trending, continue optimization'',
         ustr ''3. **Cardiovascular Risk** - Hypertension and diabetes increase CV risk'',
         ustr ''\<newline>**Based on Available Sources:**''] @
        map (\<lambda>s. ustr ''- ['' @ str_upper (source_type s) @ ustr ''] '' @ label s) (take 3 srcs))"

text \<open>\<open>_template_generic_response\<close>: two entries of \<open>parts\<close> for each of the first five sources.\<close>

definition generic_entry :: "source \<Rightarrow> pystr list" where
  "generic_entry s =
     [ustr ''\<newline>['' @ str_upper (source_type s) @ ustr '' - '' @ label s @ ustr '']'',
      (if length (snippet s) > 200 then take 200 (snippet s) @ ustr ''...'' else snippet s)]"

definition template_generic_response :: "pystr \<Rightarrow> source list \<Rightarrow> pystr" where
  "template_generic_response patient_name srcs =
     (let parts0 = [ustr ''Based on the available records for '' @ patient_name @ ustr '':\<newline>'']
      in if srcs \<noteq> []
         then str_join [10]
                (parts0 @ [ustr ''**Relevant Information Found:**''] @
                 concat (map generic_entry (take 5 srcs)))
         else str_join [10]
                (parts0 @ [ustr ''No relevant information found in the available records.'',
                           ustr ''Please try rephrasing your question or check that relevant data exists for this patient.'']))"

definition changes_actions :: "pystr list" where
  "changes_actions =
     [ustr ''Review medication changes with patient'',
      ustr ''Confirm lab trends are in expected direction'',
      ustr ''Schedule follow-up to assess treatment response'']"

definition medication_actions :: "pystr list" where
  "medication_actions =
     [ustr ''Monitor potassium and kidney function'',
      ustr ''Assess blood pressure response to dose change'',
      ustr ''Document rationale in medication history'']"

definition risk_actions :: "pystr list" where
  "risk_actions =
     [ustr ''Prioritize kidney function monitoring'',
      ustr ''Ensure diabetes management is optimized'',
      ustr ''Review cardiovascular risk factors'']"

definition generic_actions :: "pystr list" where
  "generic_actions =
     [ustr ''Review relevant clinical context'',
      ustr ''Document findings in patient record'',
      ustr ''Follow up as clinically indicated'']"

text \<open>\<open>_generate_template_response\<close>: the answer, the next actions and no model name.\<close>

definition generate_template_response ::
  "pystr \<Rightarrow> pystr \<Rightarrow> source list \<Rightarrow> pystr \<times> pystr list \<times> pystr option" where
  "generate_template_response q patient_name srcs =
     (let question_lower = str_lower q;
          note_sources = filter (\<lambda>s. source_type s = ustr ''note'') srcs;
          lab_sources = filter (\<lambda>s. source_type s = ustr ''lab'') srcs;
          med_sources = filter (\<lambda>s. source_type s = ustr ''med'') srcs
      in if contains (ustr ''last 90 days'') question_lower \<or>
            contains (ustr ''changed'') question_lower \<or>
            contains (ustr ''recent'') question_lower
         then (template_changes_response patient_name note_sources lab_sources med_sources,
               changes_actions, None)
         else if contains (ustr ''lisinopril'') question_lower \<or> contains (ustr ''dose'') question_lower
         then (template_medication_response patient_name med_sources lab_sources note_sources,
               medication_actions, None)
         else if contains (ustr ''risk'') question_lower \<or> contains (ustr ''action'') question_lower
         then (template_risk_response patient_name srcs, risk_actions, None)
         else (template_generic_response patient_name srcs, generic_actions, None))"

section \<open>The answer generator\<close>

definition base_url_of :: "pystr \<Rightarrow> pystr" where
  "base_url_of endpoint = rstrip_chars (ustr ''/'') endpoint @ ustr ''/openai/v1/''"

text \<open>
  \<open>_generate_with_openai\<close>: the body of the \<open>try\<close> gives \<open>Inl\<close> where it raises, and the
  handler answers with the template. The second component lists the calls made to the
  hosted model.
\<close>

definition openai_attempt ::
  "env \<Rightarrow> pystr \<Rightarrow> pystr \<Rightarrow> source list \<Rightarrow>
   (error + pystr \<times> pystr list \<times> pystr option) \<times> hosted_call list" where
  "openai_attempt e q patient_name srcs =
     (let s = get_settings e in
      case azure_openai_endpoint s of
        None \<Rightarrow> (Inl AttributeError, [])
      | Some endpoint \<Rightarrow>
          (let base_url = base_url_of endpoint;
               made = [New_client (azure_openai_key s) base_url]
           in case new_client e (azure_openai_key s) base_url of
                Some err \<Rightarrow> (Inl err, made)
              | None \<Rightarrow>
                  (let user_input = snd (build_context_and_prompt q patient_name srcs);
                       request = \<lparr>req_model = azure_openai_chat_deployment s, req_input = user_input\<rparr>;
                       made' = made @ [Responses_create request]
                   in case responses_create e request of
                        Inl err \<Rightarrow> (Inl err, made')
                      | Inr response_text \<Rightarrow>
                          (case parse_llm_response response_text of
                             None \<Rightarrow> (Inl IndexError, made')
                           | Some (a, acts) \<Rightarrow>
                               (Inr (a, acts, Some (azure_openai_chat_deployment s)), made')))))"

definition generate_with_openai ::
  "env \<Rightarrow> pystr \<Rightarrow> pystr \<Rightarrow> source list \<Rightarrow>
   (pystr \<times> pystr list \<times> pystr option) \<times> hosted_call list" where
  "generate_with_openai e q patient_name srcs =
     (case openai_attempt e q patient_name srcs of
        (Inr r, made) \<Rightarrow> (r, made)
      | (Inl err, made) \<Rightarrow> (generate_template_response q patient_name srcs, made))"

definition generate_answer ::
  "env \<Rightarrow> pystr \<Rightarrow> pystr \<Rightarrow> source list \<Rightarrow>
   (pystr \<times> pystr list \<times> pystr option) \<times> hosted_call list" where
  "generate_answer e q patient_name srcs =
     (if has_azure_openai (get_settings e) then generate_with_openai e q patient_name srcs
      else (generate_template_response q patient_name srcs, []))"

section \<open>Streaming\<close>

text \<open>
  The template path's loop \<open>for i in range(0, len(words), 3)\<close>: the text of each
  \<open>delta\<close> event is \<open>" ".join(words[i:i+3]) + " "\<close>. The pause between two events is
  not modelled.
\<close>

function delta_chunks :: "nat \<Rightarrow> pystr list \<Rightarrow> pystr list" where
  "delta_chunks i words =
     (if i < length words
      then (str_join (ustr '' '') (take 3 (drop i words)) @ ustr '' '') # delta_chunks (i + 3) words
      else [])"
  by pat_completeness auto
termination
  by (relation "measure (\<lambda>(i, words). length words - i)") auto

declare delta_chunks.simps [simp del]

text \<open>
  The loop over the hosted stream: \<open>full_text\<close> grows by each text delta, which is sent on
  at once; events of any other type are skipped.
\<close>

fun forward_deltas :: "api_event list \<Rightarrow> pystr \<Rightarrow> event list \<Rightarrow> pystr \<times> event list" where
  "forward_deltas [] full_text sent = (full_text, sent)"
| "forward_deltas (Output_text_delta d # evs) full_text sent =
     forward_deltas evs (full_text @ d) (sent @ [Delta_event d])"
| "forward_deltas (Other_api_event # evs) full_text sent = forward_deltas evs full_text sent"

text \<open>
  A generator is modelled by the list of events it yields and the exception it ends
  with, if it ends with one. \<open>_stream_with_openai\<close>:
\<close>

definition stream_with_openai ::
  "env \<Rightarrow> pystr \<Rightarrow> pystr \<Rightarrow> source list \<Rightarrow> event list \<times> error option" where
  "stream_with_openai e q patient_name srcs =
     (let s = get_settings e in
      case azure_openai_endpoint s of
        None \<Rightarrow> ([], Some AttributeError)
      | Some endpoint \<Rightarrow>
          (case new_client e (azure_openai_key s) (base_url_of endpoint) of
             Some err \<Rightarrow> ([], Some err)
           | None \<Rightarrow>
               (let sent = map Source_event srcs;
                    user_input = snd (build_context_and_prompt q patient_name srcs);
                    request = \<lparr>req_model = azure_openai_chat_deployment s, req_input = user_input\<rparr>
                in case responses_stream e request of
                     Inl err \<Rightarrow> (sent, Some err)
                   | Inr (api_events, failure) \<Rightarrow>
                       (let (full_text, sent') = forward_deltas api_events [] sent
                        in case failure of
                             Some err \<Rightarrow> (sent', Some err)
                           | None \<Rightarrow>
                               (case parse_llm_response full_text of
                                  None \<Rightarrow> (sent', Some IndexError)
                                | Some (a, acts) \<Rightarrow>
                                    (sent' @ [Actions_event acts,
                                              Done_event (Some (azure_openai_chat_deployment s))
                                                (ustr ''vector'')],
                                     None))))))"

text \<open>
  \<open>generate_answer_stream\<close>. In the template path nothing raises; in the hosted path the
  handler turns the exception into the last event, so this generator always ends normally.
\<close>

definition generate_answer_stream :: "env \<Rightarrow> pystr \<Rightarrow> pystr \<Rightarrow> source list \<Rightarrow> event list" where
  "generate_answer_stream e q patient_name srcs =
     (if \<not> has_azure_openai (get_settings e) then
        (let (a, acts, m) = generate_template_response q patient_name srcs;
             words = split_ws a
         in map Source_event srcs @ map Delta_event (delta_chunks 0 words) @
            [Actions_event acts, Done_event None (ustr ''template'')])
      else
        (case stream_with_openai e q patient_name srcs of
           (sent, None) \<Rightarrow> sent
         | (sent, Some err) \<Rightarrow> sent @ [Error_event err]))"

section \<open>Retrieval\<close>

text \<open>
  The first loop of \<open>retrieve_context\<close>: it stops at the first note scored above 0.5, and
  comparing a NULL score raises TypeError.
\<close>

fun has_vector_results :: "row list \<Rightarrow> error + bool" where
  "has_vector_results [] = Inr False"
| "has_vector_results (r # rs) =
     (if row_source_type r = Some (ustr ''note'') then
        (case row_score r of
           None \<Rightarrow> Inl TypeError
         | Some sc \<Rightarrow> if sc > 0.5 then Inr True else has_vector_results rs)
      else has_vector_results rs)"

text \<open>
  The second loop: metadata given as text is decoded, and \<open>float\<close> of a NULL score raises.
  The score is kept as the number the row holds: the rounding \<open>float\<close> applies to a decimal
  is not modelled, and no theorem reads the converted score.
\<close>

definition process_row :: "env \<Rightarrow> row \<Rightarrow> error + result" where
  "process_row e r =
     (case (case row_metadata r of
              Meta_null \<Rightarrow> Inr JNull
            | Meta_value v \<Rightarrow> Inr v
            | Meta_text t \<Rightarrow> json_loads e t) of
        Inl err \<Rightarrow> Inl err
      | Inr md \<Rightarrow>
          (case row_score r of
             None \<Rightarrow> Inl TypeError
           | Some sc \<Rightarrow>
               Inr \<lparr>res_source_type = row_source_type r, res_source_id = row_source_id r,
                    res_label = row_label r, res_snippet = row_snippet r,
                    res_score = sc, res_metadata = md\<rparr>))"

fun process_rows :: "env \<Rightarrow> row list \<Rightarrow> result list \<Rightarrow> error + result list" where
  "process_rows e [] processed_results = Inr processed_results"
| "process_rows e (r # rs) processed_results =
     (case process_row e r of
        Inl err \<Rightarrow> Inl err
      | Inr d \<Rightarrow> process_rows e rs (processed_results @ [d]))"

text \<open>The body of the \<open>try\<close> in \<open>retrieve_context\<close>, and the function with its handler.\<close>

definition retrieve_attempt :: "env \<Rightarrow> pystr \<Rightarrow> pystr \<Rightarrow> int \<Rightarrow> error + result list \<times> pystr" where
  "retrieve_attempt e patient_id query max_results =
     (case execute_query e patient_id query max_results of
        Inl err \<Rightarrow> Inl err
      | Inr results \<Rightarrow>
          (case has_vector_results results of
             Inl err \<Rightarrow> Inl err
           | Inr hv \<Rightarrow>
               (let method = (if hv then ustr ''vector'' else ustr ''keyword'')
                in case process_rows e results [] of
                     Inl err \<Rightarrow> Inl err
                   | Inr processed_results \<Rightarrow> Inr (processed_results, method))))"

definition retrieve_context :: "env \<Rightarrow> pystr \<Rightarrow> pystr \<Rightarrow> int \<Rightarrow> result list \<times> pystr" where
  "retrieve_context e patient_id query max_results =
     (case retrieve_attempt e patient_id query max_results of
        Inr r \<Rightarrow> r
      | Inl err \<Rightarrow> ([], ustr ''error''))"

section \<open>The copilot routes\<close>

text \<open>
  \<open>CopilotSource(...)\<close> validates its fields: the four required ones must not be
  \<open>None\<close>, and the metadata must be \<open>None\<close> or a dictionary.
\<close>

definition to_source :: "result \<Rightarrow> error + source" where
  "to_source r =
     (case (res_source_type r, res_source_id r, res_label r, res_snippet r) of
        (Some st, Some sid, Some l, Some sn) \<Rightarrow>
          (case res_metadata r of
             JNull \<Rightarrow> Inr \<lparr>source_type = st, source_id = sid, label = l, snippet = sn,
                            score = res_score r, metadata = None\<rparr>
           | JObj kvs \<Rightarrow> Inr \<lparr>source_type = st, source_id = sid, label = l, snippet = sn,
                               score = res_score r, metadata = Some kvs\<rparr>
           | _ \<Rightarrow> Inl ValidationError)
      | _ \<Rightarrow> Inl ValidationError)"

fun to_sources :: "result list \<Rightarrow> error + source list" where
  "to_sources [] = Inr []"
| "to_sources (r # rs) =
     (case to_source r of
        Inl err \<Rightarrow> Inl err
      | Inr s \<Rightarrow> (case to_sources rs of Inl err \<Rightarrow> Inl err | Inr ss \<Rightarrow> Inr (s # ss)))"

text \<open>\<open>ask_copilot\<close>: the patient lookup is outside the \<open>try\<close>, the rest inside.\<close>

definition ask_copilot :: "env \<Rightarrow> pystr \<Rightarrow> copilot_request \<Rightarrow> fault + copilot_response" where
  "ask_copilot e patient_id request =
     (case execute_one e patient_id of
        Inl err \<Rightarrow> Inl (Unhandled err)
      | Inr None \<Rightarrow> Inl (Http_404 patient_id)
      | Inr (Some p) \<Rightarrow>
          (let (context_results, method) =
                 retrieve_context e patient_id (question request) (max_sources request)
           in case to_sources context_results of
                Inl err \<Rightarrow> Inl (Http_500 err)
              | Inr srcs \<Rightarrow>
                  (let (a, acts, m) = fst (generate_answer e (question request) (display_name p) srcs)
                   in Inr \<lparr>answer = a, next_actions = acts, sources = srcs, model_used = m,
                           retrieval_method = method\<rparr>)))"

text \<open>The generator \<open>generate_stream\<close> inside \<open>stream_copilot\<close>, and the route.\<close>

definition generate_stream :: "env \<Rightarrow> pystr \<Rightarrow> copilot_request \<Rightarrow> patient \<Rightarrow> event list" where
  "generate_stream e patient_id request p =
     (let (context_results, method) =
            retrieve_context e patient_id (question request) (max_sources request)
      in case to_sources context_results of
           Inl err \<Rightarrow> [Error_event err]
         | Inr srcs \<Rightarrow>
             Metadata_event method #
             generate_answer_stream e (question request) (display_name p) srcs)"

definition stream_copilot :: "env \<Rightarrow> pystr \<Rightarrow> copilot_request \<Rightarrow> fault + event list" where
  "stream_copilot e patient_id request =
     (case execute_one e patient_id of
        Inl err \<Rightarrow> Inl (Unhandled err)
      | Inr None \<Rightarrow> Inl (Http_404 patient_id)
      | Inr (Some p) \<Rightarrow> Inr (generate_stream e patient_id request p))"

section \<open>Reading an event stream\<close>

fun delta_text :: "event \<Rightarrow> pystr list" where
  "delta_text (Delta_event t) = [t]"
| "delta_text ev = []"

definition delta_texts :: "event list \<Rightarrow> pystr list" where
  "delta_texts evs = concat (map delta_text evs)"

fun source_of :: "event \<Rightarrow> source list" where
  "source_of (Source_event s) = [s]"
| "source_of ev = []"

definition sources_sent :: "event list \<Rightarrow> source list" where
  "sources_sent evs = concat (map source_of evs)"

text \<open>
  The order the specification gives for a run without error:
  \<open>source*, metadata, delta+, actions, done\<close>.
\<close>

definition specified_order :: "event_type list \<Rightarrow> bool" where
  "specified_order ts =
     (case dropWhile (\<lambda>t. t = Source) ts of
        Metadata # Delta # r \<Rightarrow> dropWhile (\<lambda>t. t = Delta) r = [Actions, Done]
      | _ \<Rightarrow> False)"

text \<open>
  The answer the specification gives for a text without the next-actions marker: the
  entire text, minus a leading answer marker if present, trimmed.
\<close>

definition specified_plain_answer :: "pystr \<Rightarrow> pystr" where
  "specified_plain_answer t =
     strip (if startswith t answer_marker then drop (length answer_marker) t else t)"

text \<open>A list cut into consecutive groups of three, the last one of one to three.\<close>

function groups_of_3 :: "'a list \<Rightarrow> 'a list list" where
  "groups_of_3 xs = (if xs = [] then [] else take 3 xs # groups_of_3 (drop 3 xs))"
  by pat_completeness auto
termination
  by (relation "measure length") auto

declare groups_of_3.simps [simp del]

section \<open>Example requests\<close>

definition note_row :: row where
  "note_row =
     \<lparr>row_source_type = Some (ustr ''note''), row_source_id = Some 7,
      row_label = Some (ustr ''Progress note''), row_snippet = Some (ustr ''BP  stable''),
      row_score = Some 0.9, row_metadata = Meta_null\<rparr>"

definition lab_row :: row where
  "lab_row =
     \<lparr>row_source_type = Some (ustr ''lab''), row_source_id = Some 3,
      row_label = Some (ustr ''Potassium''), row_snippet = Some (ustr ''4.1 mmol/L''),
      row_score = Some 1, row_metadata = Meta_null\<rparr>"

definition med_source :: source where
  "med_source =
     \<lparr>source_type = ustr ''med'', source_id = 1, label = ustr ''Lisinopril 10mg'',
      snippet = ustr ''Lisinopril 10mg daily - Status: active'', score = 1, metadata = None\<rparr>"

definition lab_source :: source where
  "lab_source =
     \<lparr>source_type = ustr ''lab'', source_id = 3, label = ustr ''Potassium'',
      snippet = ustr ''4.1 mmol/L'', score = 1, metadata = None\<rparr>"

text \<open>No hosted model is configured, and the context store returns one note.\<close>

definition offline_env :: env where
  "offline_env =
     \<lparr>get_settings = \<lparr>azure_openai_endpoint = None, azure_openai_key = None,
                       azure_openai_chat_deployment = ustr ''gpt-5.2''\<rparr>,
      execute_one = (\<lambda>pid. Inr (Some \<lparr>display_name = ustr ''Ann''\<rparr>)),
      execute_query = (\<lambda>pid q n. Inr [note_row]),
      json_loads = (\<lambda>t. Inr JNull),
      new_client = (\<lambda>k u. None),
      responses_create = (\<lambda>r. Inr (ustr ''ANSWER: ok'')),
      responses_stream = (\<lambda>r. Inr ([], None))\<rparr>"

text \<open>The hosted model is configured; its stream holds no text delta.\<close>

definition hosted_env :: env where
  "hosted_env =
     offline_env\<lparr>get_settings :=
       \<lparr>azure_openai_endpoint = Some (ustr ''https://x.example/''),
        azure_openai_key = Some (ustr ''key''),
        azure_openai_chat_deployment = ustr ''gpt-5.2''\<rparr>\<rparr>"

text \<open>The hosted model is configured and every call to it raises.\<close>

definition hosted_down_env :: env where
  "hosted_down_env =
     hosted_env\<lparr>responses_create := (\<lambda>r. Inl (External (ustr ''timeout''))),
                responses_stream := (\<lambda>r. Inl (External (ustr ''timeout'')))\<rparr>"

text \<open>The context store raises.\<close>

definition store_down_env :: env where
  "store_down_env = offline_env\<lparr>execute_query := (\<lambda>pid q n. Inl (External (ustr ''connection lost'')))\<rparr>"

definition example_request :: copilot_request where
  "example_request = \<lparr>question = ustr ''Any risk?'', max_sources = 5\<rparr>"

section \<open>Facts about the string operations\<close>

lemma contains_length: "contains sub s \<Longrightarrow> length sub \<le> length s"
  by (induction s) (auto dest: prefix_length_le)

lemma contains_single: "contains [c] s \<longleftrightarrow> c \<in> set s"
  by (induction s) auto

lemma cut_None: "sep \<noteq> [] \<Longrightarrow> cut sep s = None \<longleftrightarrow> \<not> contains sep s"
  by (induction s) (auto split: option.splits)

lemma cut_Some: "cut sep s = Some (b, a) \<Longrightarrow> s = b @ sep @ a"
proof (induction s arbitrary: b)
  case Nil
  then show ?case by simp
next
  case (Cons c cs)
  show ?case
  proof (cases "prefix sep (c # cs)")
    case True
    then obtain r where r: "c # cs = sep @ r" by (auto simp: prefix_def)
    from True Cons.prems have "b = []" "a = drop (length sep) (c # cs)" by auto
    with r show ?thesis by simp
  next
    case False
    with Cons.prems obtain b' where "cut sep cs = Some (b', a)" "b = c # b'"
      by (auto split: option.splits)
    with Cons.IH show ?thesis by simp
  qed
qed

lemma str_split_no_sep: "\<not> contains sep s \<Longrightarrow> str_split sep s = [s]"
proof (cases "sep = []")
  case True
  then show ?thesis by (simp add: str_split.simps)
next
  case False
  assume "\<not> contains sep s"
  with False have "cut sep s = None" by (simp add: cut_None)
  then show ?thesis by (simp add: str_split.simps)
qed

lemma str_split_cut: "sep \<noteq> [] \<Longrightarrow> cut sep s = Some (b, a) \<Longrightarrow> str_split sep s = b # str_split sep a"
  by (simp add: str_split.simps)

lemma str_split_nonempty: "str_split sep s \<noteq> []"
  by (subst str_split.simps) (simp split: option.splits)

lemma str_split_two: "sep \<noteq> [] \<Longrightarrow> contains sep s \<Longrightarrow> 2 \<le> length (str_split sep s)"
proof -
  assume sep: "sep \<noteq> []" and c: "contains sep s"
  then obtain b a where ba: "cut sep s = Some (b, a)"
    using cut_None [OF sep, of s] by (cases "cut sep s") auto
  have "str_split sep a \<noteq> []" by (rule str_split_nonempty)
  then have "1 \<le> length (str_split sep a)" by (cases "str_split sep a") auto
  with str_split_cut [OF sep ba] show ?thesis by simp
qed

lemma prefix_sepchar: "c \<notin> set sub \<Longrightarrow> prefix sub (a @ c # b) \<longleftrightarrow> prefix sub a"
proof
  assume c: "c \<notin> set sub" and p: "prefix sub (a @ c # b)"
  from p have "prefix sub a \<or> (\<exists>us. sub = a @ us \<and> prefix us (c # b))"
    by (auto simp: prefix_append)
  then show "prefix sub a"
  proof
    assume "\<exists>us. sub = a @ us \<and> prefix us (c # b)"
    then obtain us where us: "sub = a @ us" "prefix us (c # b)" by blast
    with c have "us = []" by (cases us) auto
    with us show ?thesis by simp
  qed simp
next
  assume "prefix sub a" then show "prefix sub (a @ c # b)" by (simp add: prefix_prefix)
qed

lemma contains_sepchar:
  "c \<notin> set sub \<Longrightarrow> contains sub (a @ c # b) \<longleftrightarrow> contains sub a \<or> contains sub b"
proof (induction a)
  case Nil
  then show ?case using prefix_sepchar [of c sub "[]" b] by (cases b) auto
next
  case (Cons x a)
  then show ?case using prefix_sepchar [of c sub "x # a" b] by auto
qed

lemma cut_first:
  "sep \<noteq> [] \<Longrightarrow> \<not> contains sep (p @ butlast sep) \<Longrightarrow> cut sep (p @ sep @ r) = Some (p, r)"
proof (induction p)
  case Nil
  then show ?case by (cases sep) auto
next
  case (Cons x p)
  have np: "\<not> prefix sep (x # p @ sep @ r)"
  proof
    assume pr: "prefix sep (x # p @ sep @ r)"
    have "prefix ((x # p) @ butlast sep) ((x # p) @ sep @ r)"
      using Cons.prems(1) by (metis append_butlast_last_id append_assoc prefix_def same_prefix_prefix prefixI)
    moreover have "length sep \<le> length ((x # p) @ butlast sep)" by simp
    ultimately have "prefix sep ((x # p) @ butlast sep)"
      using pr prefix_length_prefix [of sep "(x # p) @ sep @ r" "(x # p) @ butlast sep"] by simp
    with Cons.prems(2) show False by simp
  qed
  from Cons.prems(2) have "\<not> contains sep (p @ butlast sep)" by simp
  with Cons.IH Cons.prems(1) have "cut sep (p @ sep @ r) = Some (p, r)" by simp
  with np show ?case by simp
qed

lemma lstrip_pad: "\<forall>c\<in>set l. is_space c \<Longrightarrow> lstrip (l @ s) = lstrip s"
  by (simp add: lstrip_def dropWhile_append2)

lemma rstrip_pad: "\<forall>c\<in>set r. is_space c \<Longrightarrow> rstrip (s @ r) = rstrip s"
proof -
  assume "\<forall>c\<in>set r. is_space c"
  then have "dropWhile is_space (rev r @ rev s) = dropWhile is_space (rev s)"
    by (intro dropWhile_append2) simp
  then show ?thesis by (simp add: rstrip_def)
qed

lemma strip_pad:
  assumes l: "\<forall>c\<in>set l. is_space c" and r: "\<forall>c\<in>set r. is_space c"
  shows "strip (l @ s @ r) = strip s"
proof (cases "\<forall>c\<in>set s. is_space c")
  case True
  with r have "\<forall>c\<in>set (s @ r). is_space c" by auto
  then have "lstrip (s @ r) = []" by (simp add: lstrip_def)
  moreover from True have "lstrip s = []" by (simp add: lstrip_def)
  ultimately show ?thesis using l by (simp add: strip_def lstrip_pad)
next
  case False
  then have "lstrip (s @ r) = lstrip s @ r"
    by (auto simp: lstrip_def dropWhile_append1)
  with l r show ?thesis by (simp add: strip_def lstrip_pad rstrip_pad)
qed

lemma strip_trimmed:
  assumes "s \<noteq> []" "\<not> is_space (hd s)" "\<not> is_space (last s)"
  shows "strip s = s"
proof -
  from assms have "lstrip s = s" by (cases s) (auto simp: lstrip_def)
  moreover from assms have "rstrip s = s"
    by (cases "rev s") (auto simp: rstrip_def last_rev [symmetric] hd_rev simp del: last_rev)
  ultimately show ?thesis by (simp add: strip_def)
qed

lemma rstrip_decomp: "\<exists>r. s = rstrip s @ r \<and> (\<forall>c\<in>set r. is_space c)"
proof -
  have "rev s = takeWhile is_space (rev s) @ dropWhile is_space (rev s)" by simp
  then have "s = rev (dropWhile is_space (rev s)) @ rev (takeWhile is_space (rev s))"
    by (metis rev_append rev_rev_ident)
  moreover have "\<forall>c\<in>set (rev (takeWhile is_space (rev s))). is_space c"
    by (auto dest: set_takeWhileD)
  ultimately show ?thesis unfolding rstrip_def by blast
qed

lemma strip_decomp:
  "\<exists>l r. s = l @ strip s @ r \<and> (\<forall>c\<in>set l. is_space c) \<and> (\<forall>c\<in>set r. is_space c)"
proof -
  obtain r where r: "lstrip s = rstrip (lstrip s) @ r" "\<forall>c\<in>set r. is_space c"
    using rstrip_decomp [of "lstrip s"] by blast
  have "s = takeWhile is_space s @ lstrip s" by (simp add: lstrip_def)
  with r(1) have "s = takeWhile is_space s @ strip s @ r" by (simp add: strip_def)
  moreover have "\<forall>c\<in>set (takeWhile is_space s). is_space c" by (auto dest: set_takeWhileD)
  ultimately show ?thesis using r(2) by blast
qed

lemma strip_ends:
  assumes "strip s \<noteq> []"
  shows "\<not> is_space (hd (strip s)) \<and> \<not> is_space (last (strip s))"
proof -
  let ?u = "lstrip s"
  from assms have u: "?u \<noteq> []" by (auto simp: strip_def rstrip_def)
  then have hu: "\<not> is_space (hd ?u)" unfolding lstrip_def by (rule hd_dropWhile)
  obtain r where r: "?u = strip s @ r" using rstrip_decomp [of ?u] by (auto simp: strip_def)
  with assms have "hd (strip s) = hd ?u" by (metis hd_append2)
  with hu have 1: "\<not> is_space (hd (strip s))" by simp
  from assms have d: "dropWhile is_space (rev ?u) \<noteq> []" by (simp add: strip_def rstrip_def)
  then have "\<not> is_space (hd (dropWhile is_space (rev ?u)))" by (rule hd_dropWhile)
  moreover have "last (strip s) = hd (dropWhile is_space (rev ?u))"
    using d by (simp add: strip_def rstrip_def last_rev)
  ultimately show ?thesis using 1 by simp
qed

section \<open>Properties of the response parser\<close>

lemma markers_nonempty: "next_actions_marker \<noteq> []" "answer_marker \<noteq> []"
  by (simp_all add: next_actions_marker_def answer_marker_def ustr_def)

lemma nl_notin_markers: "10 \<notin> set next_actions_marker" "10 \<notin> set answer_marker"
  by (simp_all add: next_actions_marker_def answer_marker_def ustr_def)

lemma extract_answer_total: "\<exists>a. extract_answer t = Some a"
proof (cases "contains answer_marker t")
  case True
  from str_split_two [OF markers_nonempty(2) True]
  have "1 < length (str_split answer_marker t)" by simp
  with True show ?thesis by (simp add: extract_answer_def index_def)
next
  case False
  then show ?thesis by (simp add: extract_answer_def)
qed

lemma parse_llm_response_total: "\<exists>answer actions. parse_llm_response t = Some (answer, actions)"
proof (cases "contains next_actions_marker t")
  case True
  let ?parts = "str_split next_actions_marker t"
  from str_split_two [OF markers_nonempty(1) True] have len: "1 < length ?parts" by simp
  then have i0: "index ?parts 0 = Some (?parts ! 0)" and i1: "index ?parts 1 = Some (?parts ! 1)"
    by (auto simp: index_def)
  obtain a where "extract_answer (?parts ! 0) = Some a"
    using extract_answer_total by blast
  with True len i0 i1 show ?thesis by (simp add: parse_llm_response_def Let_def)
next
  case False
  obtain a where "extract_answer t = Some a" using extract_answer_total by blast
  with False show ?thesis by (simp add: parse_llm_response_def)
qed

lemma extract_answer_no_marker: "\<not> contains answer_marker t \<Longrightarrow> extract_answer t = Some (strip t)"
  by (simp add: extract_answer_def)

lemma contains_cut: "sep \<noteq> [] \<Longrightarrow> cut sep s = Some (b, a) \<Longrightarrow> contains sep s"
  using cut_None [of sep s] by auto

lemma extract_answer_first:
  assumes "\<not> contains answer_marker (p @ butlast answer_marker)"
    and "cut answer_marker m = None \<and> m' = m \<or> (\<exists>r. cut answer_marker m = Some (m', r))"
  shows "extract_answer (p @ answer_marker @ m) = Some (strip m')"
proof -
  let ?t = "p @ answer_marker @ m"
  have c: "cut answer_marker ?t = Some (p, m)"
    using assms(1) by (rule cut_first [OF markers_nonempty(2)])
  then have "contains answer_marker ?t" by (rule contains_cut [OF markers_nonempty(2)])
  moreover have "str_split answer_marker ?t = p # str_split answer_marker m"
    using c by (rule str_split_cut [OF markers_nonempty(2)])
  moreover have "\<exists>ps. str_split answer_marker m = m' # ps"
    using assms(2) by (subst str_split.simps) (auto simp: markers_nonempty)
  ultimately show ?thesis by (auto simp: extract_answer_def index_def)
qed

text \<open>
  Claim C4, as the code has it. The parser returns a result on every text. On a text
  without the next-actions marker the next actions are the three default ones; the answer
  is the trimmed text when the answer marker does not occur either, and the trimmed text
  after the answer marker when that marker occurs once: what stands before it is dropped.
\<close>

theorem parse_llm_response_without_next_actions:
  "(\<exists>answer actions. parse_llm_response t = Some (answer, actions)) \<and>
   (\<not> contains next_actions_marker t \<longrightarrow>
      (\<exists>answer. parse_llm_response t = Some (answer, default_next_actions)) \<and>
      (\<not> contains answer_marker t \<longrightarrow>
         parse_llm_response t = Some (strip t, default_next_actions)) \<and>
      (\<forall>p m. t = p @ answer_marker @ m \<and> \<not> contains answer_marker (p @ butlast answer_marker) \<and>
           \<not> contains answer_marker m \<longrightarrow>
         parse_llm_response t = Some (strip m, default_next_actions)))"
proof (intro conjI impI allI)
  show "\<exists>answer actions. parse_llm_response t = Some (answer, actions)"
    by (rule parse_llm_response_total)
next
  assume n: "\<not> contains next_actions_marker t"
  obtain a where "extract_answer t = Some a" using extract_answer_total by blast
  with n show "\<exists>answer. parse_llm_response t = Some (answer, default_next_actions)"
    by (simp add: parse_llm_response_def)
next
  assume "\<not> contains next_actions_marker t" "\<not> contains answer_marker t"
  then show "parse_llm_response t = Some (strip t, default_next_actions)"
    by (simp add: parse_llm_response_def extract_answer_no_marker)
next
  fix p m
  assume n: "\<not> contains next_actions_marker t"
    and h: "t = p @ answer_marker @ m \<and> \<not> contains answer_marker (p @ butlast answer_marker) \<and>
           \<not> contains answer_marker m"
  then have "cut answer_marker m = None" by (simp add: cut_None markers_nonempty)
  with h have "extract_answer t = Some (strip m)" by (simp add: extract_answer_first)
  with n show "parse_llm_response t = Some (strip m, default_next_actions)"
    by (simp add: parse_llm_response_def)
qed

lemma space_codes: "is_space 10" "is_space 32" "\<not> is_space 45"
  by (simp_all add: is_space_def)

lemma strip_idem: "strip (strip s) = strip s"
proof (cases "strip s = []")
  case True
  have "strip [] = []" by (simp add: strip_def lstrip_def rstrip_def)
  with True show ?thesis by simp
next
  case False
  with strip_ends [OF False] show ?thesis by (intro strip_trimmed) simp_all
qed

lemma not_contains_butlast: "sep \<noteq> [] \<Longrightarrow> \<not> contains sep (butlast sep)"
  by (cases sep rule: rev_cases) (auto dest: contains_length)

lemma action_line:
  assumes "strip x \<noteq> []"
  shows "collect_actions ((ustr ''- '' @ x) # ls) acc = collect_actions ls (acc @ [strip x])"
proof -
  obtain l r where x: "x = l @ strip x @ r" and l: "\<forall>c\<in>set l. is_space c"
    and r: "\<forall>c\<in>set r. is_space c"
    using strip_decomp [of x] by blast
  let ?m = "[45, 32] @ l @ strip x"
  from assms have e: "\<not> is_space (last (strip x))" using strip_ends by blast
  have "strip ([] @ ?m @ r) = strip ?m" using r by (intro strip_pad) simp_all
  moreover have "strip ?m = ?m"
    using assms e by (intro strip_trimmed) (simp_all add: space_codes)
  moreover have "[] @ ?m @ r = ustr ''- '' @ x" using x by (simp add: ustr_def)
  ultimately have line: "strip (ustr ''- '' @ x) = 45 # 32 # l @ strip x" by simp
  have "lstrip_chars [45, bullet] (45 # 32 # l @ strip x) = 32 # l @ strip x"
    by (simp add: lstrip_chars_def bullet_def)
  moreover have "strip ((32 # l) @ strip x @ []) = strip (strip x)"
    using l by (intro strip_pad) (simp_all add: space_codes)
  ultimately have act: "strip (lstrip_chars [45, bullet] (45 # 32 # l @ strip x)) = strip x"
    by (simp add: strip_idem)
  have sw: "startswith (45 # 32 # l @ strip x) (ustr ''-'')"
    by (simp add: startswith_def ustr_def)
  show ?thesis
    using assms by (simp add: line act sw Let_def)
qed

lemma actions_section:
  assumes "10 \<notin> set x" "10 \<notin> set y" "strip x \<noteq> []" "strip y \<noteq> []"
  shows "collect_actions (str_split [10] (strip (ustr ''\<newline>- '' @ x @ ustr ''\<newline>- '' @ y))) []
         = [strip x, strip y]"
proof -
  obtain l r where y: "y = l @ strip y @ r" and l: "\<forall>c\<in>set l. is_space c"
    and r: "\<forall>c\<in>set r. is_space c"
    using strip_decomp [of y] by blast
  let ?y' = "l @ strip y"
  let ?m = "ustr ''- '' @ x @ 10 # ustr ''- '' @ ?y'"
  from assms(4) have e: "\<not> is_space (last (strip y))" using strip_ends by blast
  have "strip ([10] @ ?m @ r) = strip ?m" using r by (intro strip_pad) (simp_all add: space_codes)
  moreover have "strip ?m = ?m"
    using assms(4) e by (intro strip_trimmed) (simp_all add: space_codes ustr_def)
  moreover have "[10] @ ?m @ r = ustr ''\<newline>- '' @ x @ ustr ''\<newline>- '' @ y"
    using y by (simp add: ustr_def)
  ultimately have s: "strip (ustr ''\<newline>- '' @ x @ ustr ''\<newline>- '' @ y) = ?m" by simp
  have "\<not> contains [10] ((ustr ''- '' @ x) @ butlast [10])"
    using assms(1) by (simp add: contains_single ustr_def)
  then have "cut [10] ((ustr ''- '' @ x) @ [10] @ ustr ''- '' @ ?y') = Some (ustr ''- '' @ x, ustr ''- '' @ ?y')"
    by (intro cut_first) simp_all
  then have "cut [10] ?m = Some (ustr ''- '' @ x, ustr ''- '' @ ?y')" by simp
  then have "str_split [10] ?m = (ustr ''- '' @ x) # str_split [10] (ustr ''- '' @ ?y')"
    by (intro str_split_cut) simp_all
  moreover have "10 \<notin> set ?y'" using assms(2) y by (metis Un_iff set_append)
  then have "str_split [10] (ustr ''- '' @ ?y') = [ustr ''- '' @ ?y']"
    by (intro str_split_no_sep) (simp add: contains_single ustr_def)
  ultimately have lines: "str_split [10] ?m = [ustr ''- '' @ x, ustr ''- '' @ ?y']" by simp
  have "strip ([] @ strip y @ r) = strip (strip y)" using r by (intro strip_pad) simp_all
  moreover have "strip (l @ strip y @ []) = strip (strip y)" using l by (intro strip_pad) simp_all
  ultimately have "strip ?y' = strip y" using y by (simp add: strip_idem)
  with assms(3,4) show ?thesis
    by (simp add: s lines action_line del: collect_actions.simps(2))
qed

lemma layout_cut:
  assumes "\<not> contains next_actions_marker A"
  shows "cut next_actions_marker (documented_layout A x y)
         = Some (ustr ''ANSWER: '' @ A @ [10, 10], ustr ''\<newline>- '' @ x @ ustr ''\<newline>- '' @ y)"
proof -
  let ?p = "ustr ''ANSWER: '' @ A @ [10, 10]"
  have a: "\<not> contains next_actions_marker (ustr ''ANSWER: '' @ A)"
    using assms by (simp add: next_actions_marker_def ustr_def)
  have b: "\<not> contains next_actions_marker (butlast next_actions_marker)"
    by (rule not_contains_butlast [OF markers_nonempty(1)])
  have "\<not> contains next_actions_marker ((ustr ''ANSWER: '' @ A) @ 10 # [])"
    using a markers_nonempty(1) by (simp add: contains_sepchar nl_notin_markers del: append_assoc)
  then have "\<not> contains next_actions_marker (((ustr ''ANSWER: '' @ A) @ [10]) @ 10 # butlast next_actions_marker)"
    using b by (simp add: contains_sepchar nl_notin_markers del: append_assoc)
  then have "\<not> contains next_actions_marker (?p @ butlast next_actions_marker)" by simp
  then have "cut next_actions_marker (?p @ next_actions_marker @ ustr ''\<newline>- '' @ x @ ustr ''\<newline>- '' @ y)
      = Some (?p, ustr ''\<newline>- '' @ x @ ustr ''\<newline>- '' @ y)"
    by (rule cut_first [OF markers_nonempty(1)])
  moreover have "documented_layout A x y = ?p @ next_actions_marker @ ustr ''\<newline>- '' @ x @ ustr ''\<newline>- '' @ y"
    by (simp add: documented_layout_def next_actions_marker_def ustr_def)
  ultimately show ?thesis by simp
qed

lemma layout_actions_part:
  assumes "\<not> contains next_actions_marker x" "\<not> contains next_actions_marker y"
  shows "\<not> contains next_actions_marker (ustr ''\<newline>- '' @ x @ ustr ''\<newline>- '' @ y)"
proof -
  have "\<not> contains next_actions_marker (ustr ''- '' @ y)"
    using assms(2) by (simp add: next_actions_marker_def ustr_def)
  then have "\<not> contains next_actions_marker ((ustr ''- '' @ x) @ 10 # ustr ''- '' @ y)"
    using assms(1) by (simp add: contains_sepchar nl_notin_markers del: append_assoc)
      (simp add: next_actions_marker_def ustr_def)
  then have "\<not> contains next_actions_marker ([] @ 10 # (ustr ''- '' @ x) @ 10 # ustr ''- '' @ y)"
    using markers_nonempty(1) by (simp only: contains_sepchar [OF nl_notin_markers(1)]) simp
  then show ?thesis by (simp add: ustr_def)
qed

lemma layout_answer_part:
  assumes "\<not> contains answer_marker A"
  shows "extract_answer (ustr ''ANSWER: '' @ A @ [10, 10]) = Some (strip A)"
proof -
  have "\<not> contains answer_marker ((32 # A) @ 10 # [])"
    using assms markers_nonempty(2)
    by (simp add: contains_sepchar nl_notin_markers del: append_assoc append_Cons)
      (simp add: answer_marker_def ustr_def)
  then have "\<not> contains answer_marker (((32 # A) @ [10]) @ 10 # [])"
    using markers_nonempty(2) by (simp add: contains_sepchar nl_notin_markers del: append_assoc append_Cons)
  then have "\<not> contains answer_marker (32 # A @ [10, 10])" by simp
  then have "cut answer_marker (32 # A @ [10, 10]) = None"
    using cut_None [OF markers_nonempty(2)] by blast
  moreover have "\<not> contains answer_marker ([] @ butlast answer_marker)"
    using not_contains_butlast [OF markers_nonempty(2)] by simp
  ultimately have "extract_answer ([] @ answer_marker @ 32 # A @ [10, 10]) = Some (strip (32 # A @ [10, 10]))"
    by (intro extract_answer_first) simp_all
  moreover have "strip ([32] @ A @ [10, 10]) = strip A"
    by (intro strip_pad) (simp_all add: space_codes)
  ultimately show ?thesis by (simp add: answer_marker_def ustr_def)
qed

text \<open>
  Claim C3, as the code has it. Parsing the documented layout built from an answer \<open>A\<close>
  and two actions \<open>x\<close>, \<open>y\<close> gives back \<open>A\<close> trimmed and the two actions trimmed,
  provided \<open>A\<close> holds neither marker, and \<open>x\<close> and \<open>y\<close> hold no newline and no
  next-actions marker and are not blank.
\<close>

theorem parse_documented_layout:
  assumes "\<not> contains next_actions_marker A" and "\<not> contains answer_marker A"
    and "\<not> contains next_actions_marker x" and "\<not> contains next_actions_marker y"
    and "10 \<notin> set x" and "10 \<notin> set y" and "strip x \<noteq> []" and "strip y \<noteq> []"
  shows "parse_llm_response (documented_layout A x y) = Some (strip A, [strip x, strip y])"
proof -
  let ?t = "documented_layout A x y"
  let ?p = "ustr ''ANSWER: '' @ A @ [10, 10]"
  let ?r = "ustr ''\<newline>- '' @ x @ ustr ''\<newline>- '' @ y"
  have c: "cut next_actions_marker ?t = Some (?p, ?r)"
    using assms(1) by (rule layout_cut)
  then have i: "contains next_actions_marker ?t"
    by (rule contains_cut [OF markers_nonempty(1)])
  have "str_split next_actions_marker ?r = [?r]"
    using assms(3,4) by (intro str_split_no_sep layout_actions_part)
  with c have parts: "str_split next_actions_marker ?t = [?p, ?r]"
    using str_split_cut [OF markers_nonempty(1) c] by simp
  have ans: "extract_answer ?p = Some (strip A)"
    using assms(2) by (rule layout_answer_part)
  have acts: "collect_actions (str_split [10] (strip ?r)) [] = [strip x, strip y]"
    using assms(5-8) by (rule actions_section)
  show ?thesis
    by (simp add: parse_llm_response_def i parts index_def ans acts)
qed

lemmas str_eval = ustr_def strip_def lstrip_def rstrip_def is_space_def startswith_def
  lstrip_chars_def bullet_def index_def str_split.simps

text \<open>The round trip on a concrete answer and two padded actions.\<close>

theorem parse_documented_layout_witness:
  "\<not> contains next_actions_marker (ustr ''Stable'') \<and> \<not> contains answer_marker (ustr ''Stable'') \<and>
   \<not> contains next_actions_marker (ustr '' Check labs'') \<and>
   \<not> contains next_actions_marker (ustr ''Review '') \<and>
   10 \<notin> set (ustr '' Check labs'') \<and> 10 \<notin> set (ustr ''Review '') \<and>
   strip (ustr '' Check labs'') = ustr ''Check labs'' \<and> strip (ustr ''Review '') = ustr ''Review'' \<and>
   parse_llm_response (documented_layout (ustr ''Stable'') (ustr '' Check labs'') (ustr ''Review ''))
     = Some (ustr ''Stable'', [ustr ''Check labs'', ustr ''Review''])"
proof -
  have h: "\<not> contains next_actions_marker (ustr ''Stable'')" "\<not> contains answer_marker (ustr ''Stable'')"
    "\<not> contains next_actions_marker (ustr '' Check labs'')"
    "\<not> contains next_actions_marker (ustr ''Review '')"
    "10 \<notin> set (ustr '' Check labs'')" "10 \<notin> set (ustr ''Review '')"
    by (simp_all add: next_actions_marker_def answer_marker_def ustr_def)
  have s: "strip (ustr ''Stable'') = ustr ''Stable''"
    "strip (ustr '' Check labs'') = ustr ''Check labs''" "strip (ustr ''Review '') = ustr ''Review''"
    by (simp_all add: str_eval)
  have n: "strip (ustr '' Check labs'') \<noteq> []" "strip (ustr ''Review '') \<noteq> []"
    by (simp_all add: str_eval)
  from parse_documented_layout [OF h n] h s show ?thesis by simp
qed

text \<open>An action of two lines does not come back: its second line is lost.\<close>

theorem parse_documented_layout_counterexample:
  "parse_llm_response (documented_layout (ustr ''Stable'') (ustr ''Check labs\<newline>weekly'') (ustr ''Review''))
     = Some (ustr ''Stable'', [ustr ''Check labs'', ustr ''Review'']) \<and>
   parse_llm_response (documented_layout (ustr ''Stable'') (ustr ''Check labs\<newline>weekly'') (ustr ''Review''))
     \<noteq> Some (strip (ustr ''Stable''), [ustr ''Check labs\<newline>weekly'', ustr ''Review''])"
  by (simp add: parse_llm_response_def documented_layout_def extract_answer_def
      next_actions_marker_def answer_marker_def str_eval)

text \<open>Words before the answer marker are not in the answer.\<close>

theorem parse_llm_response_without_next_actions_counterexample:
  "\<not> contains next_actions_marker (ustr ''Note. ANSWER: a'') \<and>
   specified_plain_answer (ustr ''Note. ANSWER: a'') = ustr ''Note. ANSWER: a'' \<and>
   parse_llm_response (ustr ''Note. ANSWER: a'') = Some (ustr ''a'', default_next_actions) \<and>
   parse_llm_response (ustr ''Note. ANSWER: a'')
     \<noteq> Some (specified_plain_answer (ustr ''Note. ANSWER: a''), default_next_actions)"
  by (simp add: parse_llm_response_def specified_plain_answer_def extract_answer_def
      next_actions_marker_def answer_marker_def str_eval)

text \<open>A text with words before its one answer marker.\<close>

theorem parse_llm_response_without_next_actions_witness:
  "\<not> contains next_actions_marker (ustr ''Note. ANSWER: a '') \<and>
   parse_llm_response (ustr ''Note. ANSWER: a '') = Some (ustr ''a'', default_next_actions)"
proof -
  let ?t = "ustr ''Note. ANSWER: a ''"
  have n: "\<not> contains next_actions_marker ?t"
    by (simp add: next_actions_marker_def ustr_def)
  have d: "?t = ustr ''Note. '' @ answer_marker @ ustr '' a '' \<and>
      \<not> contains answer_marker (ustr ''Note. '' @ butlast answer_marker) \<and>
      \<not> contains answer_marker (ustr '' a '')"
    by (simp add: answer_marker_def ustr_def)
  have s: "strip (ustr '' a '') = ustr ''a''"
    by (simp add: str_eval)
  from parse_llm_response_without_next_actions [of ?t] n d
  have "parse_llm_response ?t = Some (strip (ustr '' a ''), default_next_actions)" by blast
  with n s show ?thesis by simp
qed

section \<open>The prompt builder: context block\<close>

lemma context_parts_from_eq:
  "context_parts_from k ss acc = acc @ map (\<lambda>i. render_source (k + i) (ss ! i)) [0..<length ss]"
proof (induction ss arbitrary: k acc)
  case Nil
  then show ?case by simp
next
  case (Cons s ss)
  have "map (\<lambda>i. render_source (k + i) ((s # ss) ! i)) [0..<Suc (length ss)]
        = render_source k s # map (\<lambda>i. render_source (k + 1 + i) (ss ! i)) [0..<length ss]"
    by (simp add: map_upt_Suc del: upt_Suc)
  with Cons.IH [of "k + 1" "acc @ [render_source k s]"] show ?case by simp
qed

lemma str_join_nonempty: "p \<noteq> [] \<Longrightarrow> str_join sep (p # ps) \<noteq> []"
  by (cases ps) simp_all

lemma render_source_nonempty: "render_source i s \<noteq> []"
  by (simp add: render_source_def ustr_def)

text \<open>
  Claim C7. The prompt builder is a function of the question, the patient name and the
  sources alone. When the source types are ASCII texts, as the types note, lab, med and
  unknown of the data model are, its context block is the placeholder when there is no
  source, and otherwise the entries \<open>[Source N - TYPE] label:\<close>, newline, snippet, one for
  each source in order, with \<open>N\<close> counting from 1 and \<open>TYPE\<close> the upper-cased source type,
  joined by blank lines. For every source list it is never empty, and the prompt embeds
  it.
\<close>

theorem context_block_format:
  "((\<forall>s\<in>set srcs. is_ascii (source_type s)) \<longrightarrow>
    fst (build_context_and_prompt q patient_name srcs) =
     (if srcs = [] then ustr ''No relevant context found.''
      else str_join (ustr ''\<newline>\<newline>'')
             (map (\<lambda>i. ustr ''[Source '' @ str_nat (i + 1) @ ustr '' - '' @
                        str_upper (source_type (srcs ! i)) @ ustr ''] '' @ label (srcs ! i) @
                        ustr '':\<newline>'' @ snippet (srcs ! i))
                [0..<length srcs]))) \<and>
   fst (build_context_and_prompt q patient_name srcs) \<noteq> [] \<and>
   snd (build_context_and_prompt q patient_name srcs) =
     ustr ''Patient: '' @ patient_name @ ustr ''\<newline>\<newline>Question: '' @ q @
     ustr ''\<newline>\<newline>Relevant Context:\<newline>'' @
     fst (build_context_and_prompt q patient_name srcs) @ prompt_tail"
proof -
  let ?parts = "map (\<lambda>i. render_source (1 + i) (srcs ! i)) [0..<length srcs]"
  have parts: "context_parts_from 1 srcs [] = ?parts"
    using context_parts_from_eq [of 1 srcs "[]"] by simp
  have e: "?parts = [] \<longleftrightarrow> srcs = []" by simp
  have ctx: "fst (build_context_and_prompt q patient_name srcs) =
      (if srcs = [] then no_context else str_join (ustr ''\<newline>\<newline>'') ?parts)"
    unfolding build_context_and_prompt_def Let_def parts fst_conv e by simp
  have ne: "fst (build_context_and_prompt q patient_name srcs) \<noteq> []"
  proof (cases srcs)
    case Nil
    with ctx show ?thesis by (simp add: no_context_def ustr_def)
  next
    case (Cons s ss)
    then have "?parts = render_source 1 s # map (\<lambda>i. render_source (1 + Suc i) (ss ! i)) [0..<length ss]"
      by (simp add: map_upt_Suc del: upt_Suc)
    with ctx Cons show ?thesis
      by (simp add: str_join_nonempty render_source_nonempty del: upt_Suc)
  qed
  have eq: "?parts = map (\<lambda>i. ustr ''[Source '' @ str_nat (i + 1) @ ustr '' - '' @
                        str_upper (source_type (srcs ! i)) @ ustr ''] '' @ label (srcs ! i) @
                        ustr '':\<newline>'' @ snippet (srcs ! i)) [0..<length srcs]"
    by (simp add: render_source_def)
  have c1: "fst (build_context_and_prompt q patient_name srcs) =
     (if srcs = [] then ustr ''No relevant context found.''
      else str_join (ustr ''\<newline>\<newline>'')
             (map (\<lambda>i. ustr ''[Source '' @ str_nat (i + 1) @ ustr '' - '' @
                        str_upper (source_type (srcs ! i)) @ ustr ''] '' @ label (srcs ! i) @
                        ustr '':\<newline>'' @ snippet (srcs ! i))
                [0..<length srcs]))"
    using ctx by (simp only: eq no_context_def)
  have c3: "snd (build_context_and_prompt q patient_name srcs) =
     ustr ''Patient: '' @ patient_name @ ustr ''\<newline>\<newline>Question: '' @ q @
     ustr ''\<newline>\<newline>Relevant Context:\<newline>'' @
     fst (build_context_and_prompt q patient_name srcs) @ prompt_tail"
    by (simp add: build_context_and_prompt_def Let_def)
  from c1 ne c3 show ?thesis by (intro conjI impI)
qed

text \<open>
  The context block of two sources with ASCII source types, and of none.
\<close>

theorem context_block_format_witness:
  "is_ascii (source_type med_source) \<and> is_ascii (source_type lab_source) \<and>
   fst (build_context_and_prompt (ustr ''Q'') (ustr ''Ann'') [med_source, lab_source]) =
     ustr ''[Source 1 - MED] Lisinopril 10mg:\<newline>Lisinopril 10mg daily - Status: active\<newline>\<newline>[Source 2 - LAB] Potassium:\<newline>4.1 mmol/L'' \<and>
   fst (build_context_and_prompt (ustr ''Q'') (ustr ''Ann'') []) = ustr ''No relevant context found.''"
proof -
  have h: "\<forall>s\<in>set [med_source, lab_source]. is_ascii (source_type s)"
    by (simp add: med_source_def lab_source_def is_ascii_def ustr_def)
  have n: "\<forall>s\<in>set ([] :: source list). is_ascii (source_type s)" by simp
  from context_block_format [of "[med_source, lab_source]" "ustr ''Q''" "ustr ''Ann''"] h
  have a: "fst (build_context_and_prompt (ustr ''Q'') (ustr ''Ann'') [med_source, lab_source]) =
     ustr ''[Source 1 - MED] Lisinopril 10mg:\<newline>Lisinopril 10mg daily - Status: active\<newline>\<newline>[Source 2 - LAB] Potassium:\<newline>4.1 mmol/L''"
    by (simp add: med_source_def lab_source_def str_nat.simps str_upper_def ustr_def upt_rec)
  from context_block_format [of "[]" "ustr ''Q''" "ustr ''Ann''"] n
  have b: "fst (build_context_and_prompt (ustr ''Q'') (ustr ''Ann'') []) = ustr ''No relevant context found.''"
    by simp
  from h have "is_ascii (source_type med_source)" "is_ascii (source_type lab_source)"
    by simp_all
  with a b show ?thesis by (intro conjI)
qed

section \<open>The template backend: selection and streamed text\<close>

lemma contains_Nil: "contains [] s"
  by (cases s) simp_all

lemma contains_appendI1: "contains sub a \<Longrightarrow> contains sub (a @ b)"
proof (induction a)
  case Nil
  then show ?case by (simp add: contains_Nil)
next
  case (Cons x a)
  from Cons.prems have "prefix sub (x # a) \<or> contains sub a" by simp
  then show ?case
  proof
    assume "prefix sub (x # a)"
    then have "prefix sub ((x # a) @ b)" by (rule prefix_prefix)
    then show ?thesis by simp
  next
    assume "contains sub a"
    with Cons.IH show ?thesis by simp
  qed
qed

lemma contains_appendI2: "contains sub b \<Longrightarrow> contains sub (a @ b)"
  by (induction a) simp_all

lemma contains_join: "p \<in> set parts \<Longrightarrow> contains sub p \<Longrightarrow> contains sub (str_join sep parts)"
proof (induction sep parts rule: str_join.induct)
  case (3 sep p' q ps)
  from "3.prems"(1) have "p = p' \<or> p \<in> set (q # ps)" by simp
  then show ?case
  proof
    assume "p = p'"
    with "3.prems"(2) show ?thesis by (simp add: contains_appendI1)
  next
    assume "p \<in> set (q # ps)"
    with "3.IH" "3.prems"(2) have "contains sub (str_join sep (q # ps))" by simp
    then show ?thesis by (simp add: contains_appendI2)
  qed
qed simp_all

lemma changes_headers:
  assumes "meds \<noteq> []" and "labs \<noteq> []"
  shows "contains (ustr ''Medication Changes'') (template_changes_response n notes labs meds)"
    and "contains (ustr ''Lab Results'') (template_changes_response n notes labs meds)"
proof -
  have m: "contains (ustr ''Medication Changes'') (ustr ''**Medication Changes:**'')"
    by (simp add: ustr_def)
  have l: "contains (ustr ''Lab Results'') (ustr ''\<newline>**Lab Results:**'')"
    by (simp add: ustr_def)
  show "contains (ustr ''Medication Changes'') (template_changes_response n notes labs meds)"
    unfolding template_changes_response_def Let_def using assms
    by (intro contains_join [OF _ m]) simp
  show "contains (ustr ''Lab Results'') (template_changes_response n notes labs meds)"
    unfolding template_changes_response_def Let_def using assms
    by (intro contains_join [OF _ l]) simp
qed

lemma changes_question:
  "contains (ustr ''last 90 days'') (str_lower (ustr ''What changed in the last 90 days?''))"
  by (simp add: str_lower_def ustr_def)

text \<open>
  Claim C9. For the question about the last 90 days and sources with at least one
  medication and one lab result, the template backend answers with the changes template,
  whose text holds both headers, and with the three fixed actions of that template.
\<close>

theorem changes_template_selected:
  assumes "\<exists>s\<in>set srcs. source_type s = ustr ''med''"
    and "\<exists>s\<in>set srcs. source_type s = ustr ''lab''"
  shows "generate_template_response (ustr ''What changed in the last 90 days?'') patient_name srcs =
           (template_changes_response patient_name
              (filter (\<lambda>s. source_type s = ustr ''note'') srcs)
              (filter (\<lambda>s. source_type s = ustr ''lab'') srcs)
              (filter (\<lambda>s. source_type s = ustr ''med'') srcs),
            [ustr ''Review medication changes with patient'',
             ustr ''Confirm lab trends are in expected direction'',
             ustr ''Schedule follow-up to assess treatment response''],
            None) \<and>
         contains (ustr ''Medication Changes'')
           (fst (generate_template_response (ustr ''What changed in the last 90 days?'') patient_name srcs)) \<and>
         contains (ustr ''Lab Results'')
           (fst (generate_template_response (ustr ''What changed in the last 90 days?'') patient_name srcs))"
proof -
  let ?meds = "filter (\<lambda>s. source_type s = ustr ''med'') srcs"
  let ?labs = "filter (\<lambda>s. source_type s = ustr ''lab'') srcs"
  from assms have ne: "?meds \<noteq> []" "?labs \<noteq> []" by (simp_all add: filter_empty_conv)
  have g: "generate_template_response (ustr ''What changed in the last 90 days?'') patient_name srcs =
           (template_changes_response patient_name
              (filter (\<lambda>s. source_type s = ustr ''note'') srcs) ?labs ?meds, changes_actions, None)"
    unfolding generate_template_response_def Let_def using changes_question by simp
  show ?thesis
    unfolding g fst_conv using changes_headers [OF ne] by (simp add: changes_actions_def)
qed

text \<open>
  One medication and one lab result.
\<close>

theorem changes_template_selected_witness:
  "(\<exists>s\<in>set [med_source, lab_source]. source_type s = ustr ''med'') \<and>
   (\<exists>s\<in>set [med_source, lab_source]. source_type s = ustr ''lab'') \<and>
   contains (ustr ''Medication Changes'')
     (fst (generate_template_response (ustr ''What changed in the last 90 days?'') (ustr ''Ann'')
          [med_source, lab_source])) \<and>
   contains (ustr ''Lab Results'')
     (fst (generate_template_response (ustr ''What changed in the last 90 days?'') (ustr ''Ann'')
          [med_source, lab_source]))"
proof -
  have h: "\<exists>s\<in>set [med_source, lab_source]. source_type s = ustr ''med''"
    "\<exists>s\<in>set [med_source, lab_source]. source_type s = ustr ''lab''"
    by (simp_all add: med_source_def lab_source_def)
  from changes_template_selected [OF h, of "ustr ''Ann''"] h show ?thesis
    by blast
qed

lemma str_join_trailing: "g \<noteq> [] \<Longrightarrow> str_join sp g @ sp = concat (map (\<lambda>w. w @ sp) g)"
  by (induction sp g rule: str_join.induct) simp_all

lemma groups_of_3_concat: "concat (groups_of_3 xs) = xs"
proof (induction xs rule: groups_of_3.induct)
  case (1 xs)
  then show ?case by (subst groups_of_3.simps) simp
qed

lemma groups_of_3_sizes: "g \<in> set (groups_of_3 xs) \<Longrightarrow> g \<noteq> [] \<and> length g \<le> 3"
proof (induction xs rule: groups_of_3.induct)
  case (1 xs)
  show ?case
  proof (cases "xs = []")
    case True
    with "1.prems" show ?thesis by (simp add: groups_of_3.simps)
  next
    case False
    with "1.prems" have "g = take 3 xs \<or> g \<in> set (groups_of_3 (drop 3 xs))"
      by (subst (asm) groups_of_3.simps) simp
    with False "1.IH" show ?thesis by auto
  qed
qed

lemma delta_chunks_groups:
  "delta_chunks i ws = map (\<lambda>g. str_join (ustr '' '') g @ ustr '' '') (groups_of_3 (drop i ws))"
proof (induction i ws rule: delta_chunks.induct)
  case (1 i ws)
  show ?case
  proof (cases "i < length ws")
    case True
    then have "groups_of_3 (drop i ws) = take 3 (drop i ws) # groups_of_3 (drop (i + 3) ws)"
      by (subst groups_of_3.simps) (simp add: add.commute)
    with True "1.IH" show ?thesis by (subst delta_chunks.simps) simp
  next
    case False
    then show ?thesis by (simp add: delta_chunks.simps groups_of_3.simps)
  qed
qed

lemma split_ws_from_words:
  "\<forall>c\<in>set w0. \<not> is_space c \<Longrightarrow> w \<in> set (split_ws_from w0 s) \<Longrightarrow>
   w \<noteq> [] \<and> (\<forall>c\<in>set w. \<not> is_space c)"
proof (induction s arbitrary: w0)
  case Nil
  then show ?case by (auto split: if_splits)
next
  case (Cons a s)
  show ?case
  proof (cases "is_space a")
    case True
    with Cons.prems have "w = rev w0 \<and> w0 \<noteq> [] \<or> w \<in> set (split_ws_from [] s)"
      by (auto split: if_splits)
    then show ?thesis
    proof
      assume "w = rev w0 \<and> w0 \<noteq> []"
      with Cons.prems(1) show ?thesis by simp
    next
      assume "w \<in> set (split_ws_from [] s)"
      then show ?thesis using Cons.IH [of "[]"] by simp
    qed
  next
    case False
    with Cons.prems have "w \<in> set (split_ws_from (a # w0) s)" by simp
    moreover from False Cons.prems(1) have "\<forall>c\<in>set (a # w0). \<not> is_space c" by simp
    ultimately show ?thesis using Cons.IH [of "a # w0"] by blast
  qed
qed

lemma concat_map_groups: "concat (map (\<lambda>g. concat (map f g)) gs) = concat (map f (concat gs))"
  by (induction gs) simp_all

lemma delta_texts_append: "delta_texts (xs @ ys) = delta_texts xs @ delta_texts ys"
  by (simp add: delta_texts_def)

lemma delta_texts_sources: "delta_texts (map Source_event ss) = []"
  by (induction ss) (simp_all add: delta_texts_def)

lemma delta_texts_deltas: "delta_texts (map Delta_event ts) = ts"
  by (induction ts) (simp_all add: delta_texts_def)

lemma template_stream_deltas:
  "\<not> has_azure_openai (get_settings e) \<Longrightarrow>
   delta_texts (generate_answer_stream e q n srcs)
     = delta_chunks 0 (split_ws (fst (generate_template_response q n srcs)))"
  by (simp add: generate_answer_stream_def Let_def split_beta delta_texts_append
      delta_texts_sources delta_texts_deltas)
    (simp add: delta_texts_def)

text \<open>
  Claim C10. In the template path the texts of the delta events are the words of the
  answer in groups of three (the last of one to three), each group joined by single spaces
  and followed by one space. Their concatenation is every word followed by one space, and
  no word holds white space: the newlines and the runs of spaces of the answer are gone.
\<close>

theorem template_stream_text:
  assumes "\<not> has_azure_openai (get_settings e)"
  shows "delta_texts (generate_answer_stream e q n srcs)
           = map (\<lambda>g. str_join (ustr '' '') g @ ustr '' '')
               (groups_of_3 (split_ws (fst (generate_template_response q n srcs)))) \<and>
         concat (groups_of_3 (split_ws (fst (generate_template_response q n srcs))))
           = split_ws (fst (generate_template_response q n srcs)) \<and>
         (\<forall>g\<in>set (groups_of_3 (split_ws (fst (generate_template_response q n srcs)))).
            g \<noteq> [] \<and> length g \<le> 3) \<and>
         concat (delta_texts (generate_answer_stream e q n srcs))
           = concat (map (\<lambda>w. w @ ustr '' '')
               (split_ws (fst (generate_template_response q n srcs)))) \<and>
         (\<forall>w\<in>set (split_ws (fst (generate_template_response q n srcs))).
            w \<noteq> [] \<and> (\<forall>c\<in>set w. \<not> is_space c))"
proof -
  let ?words = "split_ws (fst (generate_template_response q n srcs))"
  let ?texts = "delta_texts (generate_answer_stream e q n srcs)"
  have t: "?texts = map (\<lambda>g. str_join (ustr '' '') g @ ustr '' '') (groups_of_3 ?words)"
    using template_stream_deltas [OF assms] delta_chunks_groups [of 0 ?words] by simp
  have s: "\<forall>g\<in>set (groups_of_3 ?words). g \<noteq> [] \<and> length g \<le> 3"
    using groups_of_3_sizes by blast
  have "concat ?texts = concat (map (\<lambda>g. concat (map (\<lambda>w. w @ ustr '' '') g)) (groups_of_3 ?words))"
    unfolding t using s by (simp add: str_join_trailing cong: map_cong)
  also have "\<dots> = concat (map (\<lambda>w. w @ ustr '' '') (concat (groups_of_3 ?words)))"
    by (rule concat_map_groups)
  finally have c: "concat ?texts = concat (map (\<lambda>w. w @ ustr '' '') ?words)"
    by (simp add: groups_of_3_concat)
  have w: "\<forall>w\<in>set ?words. w \<noteq> [] \<and> (\<forall>c\<in>set w. \<not> is_space c)"
    unfolding split_ws_def using split_ws_from_words [of "[]"] by simp
  from t groups_of_3_concat [of ?words] s c w show ?thesis by (intro conjI)
qed

text \<open>
  The streamed text of a request without a hosted model.
\<close>

theorem template_stream_text_witness:
  "\<not> has_azure_openai (get_settings offline_env) \<and>
   concat (delta_texts (generate_answer_stream offline_env (ustr ''Any risk?'') (ustr ''Ann'') []))
     = concat (map (\<lambda>w. w @ ustr '' '')
         (split_ws (fst (generate_template_response (ustr ''Any risk?'') (ustr ''Ann'') []))))"
proof -
  have h: "\<not> has_azure_openai (get_settings offline_env)"
    by (simp add: offline_env_def has_azure_openai_def)
  from template_stream_text [OF h, of "ustr ''Any risk?''" "ustr ''Ann''" "[]"] h
  show ?thesis by blast
qed

section \<open>Retrieval: classification and failure\<close>

lemma has_vector_results_iff:
  "has_vector_results rows = Inr hv \<Longrightarrow>
   hv \<longleftrightarrow> (\<exists>r\<in>set rows. row_source_type r = Some (ustr ''note'') \<and>
                       (\<exists>sc. row_score r = Some sc \<and> sc > 0.5))"
proof (induction rows)
  case Nil
  then show ?case by simp
next
  case (Cons r rows)
  show ?case
  proof (cases "row_source_type r = Some (ustr ''note'')")
    case False
    with Cons show ?thesis by simp
  next
    case True
    with Cons.prems obtain sc where sc: "row_score r = Some sc"
      by (cases "row_score r") simp_all
    show ?thesis
    proof (cases "sc > 0.5")
      case True
      with \<open>row_source_type r = Some (ustr ''note'')\<close> sc Cons.prems show ?thesis by simp
    next
      case False
      with \<open>row_source_type r = Some (ustr ''note'')\<close> sc Cons.prems
      have "has_vector_results rows = Inr hv" by simp
      with Cons.IH False sc show ?thesis by auto
    qed
  qed
qed

lemma tags_distinct: "ustr ''vector'' \<noteq> ustr ''keyword''"
  by (simp add: ustr_def)

text \<open>
  Claim C5. When the body of \<open>retrieve_context\<close> runs to its end on the rows of the
  context store, the tag is \<open>vector\<close> exactly when some row is a note with a score above
  0.5, and \<open>keyword\<close> otherwise.
\<close>

theorem retrieval_method_classification:
  assumes "execute_query e patient_id query max_results = Inr rows"
    and "retrieve_attempt e patient_id query max_results = Inr (res, tag)"
  shows "retrieve_context e patient_id query max_results = (res, tag) \<and>
         (tag = ustr ''vector'' \<longleftrightarrow>
            (\<exists>r\<in>set rows. row_source_type r = Some (ustr ''note'') \<and>
                           (\<exists>sc. row_score r = Some sc \<and> sc > 0.5))) \<and>
         (tag \<noteq> ustr ''vector'' \<longrightarrow> tag = ustr ''keyword'')"
proof -
  from assms obtain hv where hv: "has_vector_results rows = Inr hv"
    and tag: "tag = (if hv then ustr ''vector'' else ustr ''keyword'')"
    by (auto simp: retrieve_attempt_def Let_def split: sum.splits)
  from assms(2) have "retrieve_context e patient_id query max_results = (res, tag)"
    by (simp add: retrieve_context_def)
  with has_vector_results_iff [OF hv] tag tags_distinct show ?thesis by auto
qed

text \<open>
  One note scored 0.9.
\<close>

theorem retrieval_method_classification_witness:
  "execute_query offline_env (ustr ''p1'') (ustr ''bp'') 5 = Inr [note_row] \<and>
   (\<exists>res. retrieve_attempt offline_env (ustr ''p1'') (ustr ''bp'') 5 = Inr (res, ustr ''vector'')) \<and>
   snd (retrieve_context offline_env (ustr ''p1'') (ustr ''bp'') 5) = ustr ''vector'' \<and>
   (\<exists>r\<in>set [note_row]. row_source_type r = Some (ustr ''note'') \<and>
                   (\<exists>sc. row_score r = Some sc \<and> sc > 0.5))"
proof -
  have q: "execute_query offline_env (ustr ''p1'') (ustr ''bp'') 5 = Inr [note_row]"
    by (simp add: offline_env_def)
  obtain res where a: "retrieve_attempt offline_env (ustr ''p1'') (ustr ''bp'') 5 = Inr (res, ustr ''vector'')"
    by (simp add: retrieve_attempt_def offline_env_def note_row_def process_row_def)
  from retrieval_method_classification [OF q a] q a show ?thesis by auto
qed

text \<open>
  Claim C6. When the call to the context store raises, \<open>retrieve_context\<close> returns no
  sources and the tag \<open>error\<close>; the request for a known patient is then answered from
  zero sources, with that tag, on the synchronous route and on the streaming route.
\<close>

theorem context_store_failure:
  assumes "execute_query e patient_id (question request) (max_sources request) = Inl err"
    and "execute_one e patient_id = Inr (Some p)"
  shows "retrieve_context e patient_id (question request) (max_sources request) = ([], ustr ''error'') \<and>
         ask_copilot e patient_id request =
           Inr \<lparr>answer = fst (fst (generate_answer e (question request) (display_name p) [])),
                next_actions = fst (snd (fst (generate_answer e (question request) (display_name p) []))),
                sources = [],
                model_used = snd (snd (fst (generate_answer e (question request) (display_name p) []))),
                retrieval_method = ustr ''error''\<rparr> \<and>
         stream_copilot e patient_id request =
           Inr (Metadata_event (ustr ''error'') #
                generate_answer_stream e (question request) (display_name p) [])"
proof -
  have r: "retrieve_context e patient_id (question request) (max_sources request) = ([], ustr ''error'')"
    using assms(1) by (simp add: retrieve_context_def retrieve_attempt_def)
  have a: "ask_copilot e patient_id request =
           Inr \<lparr>answer = fst (fst (generate_answer e (question request) (display_name p) [])),
                next_actions = fst (snd (fst (generate_answer e (question request) (display_name p) []))),
                sources = [],
                model_used = snd (snd (fst (generate_answer e (question request) (display_name p) []))),
                retrieval_method = ustr ''error''\<rparr>"
    using assms(2) by (simp add: ask_copilot_def r split_beta)
  have s: "stream_copilot e patient_id request =
           Inr (Metadata_event (ustr ''error'') #
                generate_answer_stream e (question request) (display_name p) [])"
    using assms(2) by (simp add: stream_copilot_def generate_stream_def r)
  from r a s show ?thesis by (intro conjI)
qed

text \<open>
  A request while the context store is down.
\<close>

theorem context_store_failure_witness:
  "execute_query store_down_env (ustr ''p1'') (question example_request) (max_sources example_request)
     = Inl (External (ustr ''connection lost'')) \<and>
   execute_one store_down_env (ustr ''p1'') = Inr (Some \<lparr>display_name = ustr ''Ann''\<rparr>) \<and>
   retrieve_context store_down_env (ustr ''p1'') (question example_request) (max_sources example_request)
     = ([], ustr ''error'') \<and>
   (\<exists>r. ask_copilot store_down_env (ustr ''p1'') example_request = Inr r \<and> sources r = [] \<and>
        retrieval_method r = ustr ''error'')"
proof -
  have q: "execute_query store_down_env (ustr ''p1'') (question example_request) (max_sources example_request)
     = Inl (External (ustr ''connection lost''))"
    by (simp add: store_down_env_def)
  have p: "execute_one store_down_env (ustr ''p1'') = Inr (Some \<lparr>display_name = ustr ''Ann''\<rparr>)"
    by (simp add: store_down_env_def offline_env_def)
  from context_store_failure [OF q p] q p show ?thesis by simp
qed

section \<open>Backend selection and fallback\<close>

lemma has_azure_openai_iff:
  "has_azure_openai s \<longleftrightarrow>
     (\<exists>ep k. azure_openai_endpoint s = Some ep \<and> ep \<noteq> [] \<and> azure_openai_key s = Some k \<and> k \<noteq> [])"
  by (auto simp: has_azure_openai_def split: option.splits)

lemma openai_attempt_calls:
  "azure_openai_endpoint (get_settings e) = Some ep \<Longrightarrow> snd (openai_attempt e q n srcs) \<noteq> []"
  by (simp add: openai_attempt_def Let_def split: option.splits sum.splits prod.splits)

lemma openai_attempt_raises:
  assumes "azure_openai_endpoint (get_settings e) = Some ep"
  shows "(\<exists>err. fst (openai_attempt e q n srcs) = Inl err) \<longleftrightarrow>
         new_client e (azure_openai_key (get_settings e)) (base_url_of ep) \<noteq> None \<or>
         (\<exists>err. responses_create e
                  \<lparr>req_model = azure_openai_chat_deployment (get_settings e),
                   req_input = snd (build_context_and_prompt q n srcs)\<rparr> = Inl err)"
proof (cases "new_client e (azure_openai_key (get_settings e)) (base_url_of ep)")
  case (Some err)
  with assms show ?thesis by (simp add: openai_attempt_def Let_def)
next
  case None
  let ?request = "\<lparr>req_model = azure_openai_chat_deployment (get_settings e),
                   req_input = snd (build_context_and_prompt q n srcs)\<rparr>"
  show ?thesis
  proof (cases "responses_create e ?request")
    case (Inl err)
    with assms None show ?thesis by (simp add: openai_attempt_def Let_def)
  next
    case (Inr reply)
    obtain a acts where "parse_llm_response reply = Some (a, acts)"
      using parse_llm_response_total by blast
    with assms None Inr show ?thesis by (simp add: openai_attempt_def Let_def)
  qed
qed

text \<open>
  Claim C8. The synchronous generator calls the hosted model exactly when an endpoint
  and a key are both configured (set and not empty). Without them, and whenever the
  hosted attempt raises, the result is the template response, whose model name is
  \<open>None\<close>. The attempt raises exactly when the client cannot be created or the
  completion call fails.
\<close>

theorem generate_answer_backend:
  "(snd (generate_answer e q n srcs) \<noteq> [] \<longleftrightarrow>
      (\<exists>ep k. azure_openai_endpoint (get_settings e) = Some ep \<and> ep \<noteq> [] \<and>
              azure_openai_key (get_settings e) = Some k \<and> k \<noteq> [])) \<and>
   (\<not> has_azure_openai (get_settings e) \<or> (\<exists>err. fst (openai_attempt e q n srcs) = Inl err) \<longrightarrow>
      fst (generate_answer e q n srcs) = generate_template_response q n srcs) \<and>
   snd (snd (generate_template_response q n srcs)) = None \<and>
   (\<forall>ep. azure_openai_endpoint (get_settings e) = Some ep \<longrightarrow>
      ((\<exists>err. fst (openai_attempt e q n srcs) = Inl err) \<longleftrightarrow>
       new_client e (azure_openai_key (get_settings e)) (base_url_of ep) \<noteq> None \<or>
       (\<exists>err. responses_create e
                \<lparr>req_model = azure_openai_chat_deployment (get_settings e),
                 req_input = snd (build_context_and_prompt q n srcs)\<rparr> = Inl err)))"
proof (intro conjI allI impI)
  show "snd (generate_answer e q n srcs) \<noteq> [] \<longleftrightarrow>
      (\<exists>ep k. azure_openai_endpoint (get_settings e) = Some ep \<and> ep \<noteq> [] \<and>
              azure_openai_key (get_settings e) = Some k \<and> k \<noteq> [])"
  proof (cases "has_azure_openai (get_settings e)")
    case True
    then obtain ep where ep: "azure_openai_endpoint (get_settings e) = Some ep"
      by (auto simp: has_azure_openai_iff)
    have "snd (generate_with_openai e q n srcs) = snd (openai_attempt e q n srcs)"
      by (simp add: generate_with_openai_def split: prod.splits sum.splits)
    with True openai_attempt_calls [OF ep] have "snd (generate_answer e q n srcs) \<noteq> []"
      by (simp add: generate_answer_def)
    moreover from True have "\<exists>ep k. azure_openai_endpoint (get_settings e) = Some ep \<and> ep \<noteq> [] \<and>
              azure_openai_key (get_settings e) = Some k \<and> k \<noteq> []"
      by (simp add: has_azure_openai_iff)
    ultimately show ?thesis by simp
  next
    case False
    then have "snd (generate_answer e q n srcs) = []" by (simp add: generate_answer_def)
    moreover from False have "\<not> (\<exists>ep k. azure_openai_endpoint (get_settings e) = Some ep \<and> ep \<noteq> [] \<and>
              azure_openai_key (get_settings e) = Some k \<and> k \<noteq> [])"
      by (simp add: has_azure_openai_iff)
    ultimately show ?thesis by simp
  qed
next
  assume "\<not> has_azure_openai (get_settings e) \<or> (\<exists>err. fst (openai_attempt e q n srcs) = Inl err)"
  then show "fst (generate_answer e q n srcs) = generate_template_response q n srcs"
    by (auto simp: generate_answer_def generate_with_openai_def split: prod.splits sum.splits)
next
  show "snd (snd (generate_template_response q n srcs)) = None"
    by (simp add: generate_template_response_def Let_def)
next
  fix ep
  assume "azure_openai_endpoint (get_settings e) = Some ep"
  then show "(\<exists>err. fst (openai_attempt e q n srcs) = Inl err) \<longleftrightarrow>
       new_client e (azure_openai_key (get_settings e)) (base_url_of ep) \<noteq> None \<or>
       (\<exists>err. responses_create e
                \<lparr>req_model = azure_openai_chat_deployment (get_settings e),
                 req_input = snd (build_context_and_prompt q n srcs)\<rparr> = Inl err)"
    by (rule openai_attempt_raises)
qed

text \<open>
  A configured hosted model that times out, and an unconfigured one.
\<close>

theorem generate_answer_backend_witness:
  "has_azure_openai (get_settings hosted_down_env) \<and>
   fst (openai_attempt hosted_down_env (ustr ''Any risk?'') (ustr ''Ann'') []) = Inl (External (ustr ''timeout'')) \<and>
   snd (generate_answer hosted_down_env (ustr ''Any risk?'') (ustr ''Ann'') []) \<noteq> [] \<and>
   fst (generate_answer hosted_down_env (ustr ''Any risk?'') (ustr ''Ann'') [])
     = generate_template_response (ustr ''Any risk?'') (ustr ''Ann'') [] \<and>
   \<not> has_azure_openai (get_settings offline_env) \<and>
   snd (generate_answer offline_env (ustr ''Any risk?'') (ustr ''Ann'') []) = [] \<and>
   fst (generate_answer offline_env (ustr ''Any risk?'') (ustr ''Ann'') [])
     = generate_template_response (ustr ''Any risk?'') (ustr ''Ann'') []"
proof -
  have h: "has_azure_openai (get_settings hosted_down_env)"
    by (simp add: hosted_down_env_def hosted_env_def offline_env_def has_azure_openai_def ustr_def)
  have a: "fst (openai_attempt hosted_down_env (ustr ''Any risk?'') (ustr ''Ann'') []) = Inl (External (ustr ''timeout''))"
    by (simp add: openai_attempt_def hosted_down_env_def hosted_env_def offline_env_def Let_def)
  have o: "\<not> has_azure_openai (get_settings offline_env)"
    by (simp add: offline_env_def has_azure_openai_def)
  from generate_answer_backend [of hosted_down_env "ustr ''Any risk?''" "ustr ''Ann''" "[]"]
    generate_answer_backend [of offline_env "ustr ''Any risk?''" "ustr ''Ann''" "[]"]
    h a o has_azure_openai_iff [of "get_settings hosted_down_env"]
    has_azure_openai_iff [of "get_settings offline_env"]
  show ?thesis by blast
qed

section \<open>The event stream\<close>

lemma split_ws_from_pending: "w \<noteq> [] \<Longrightarrow> split_ws_from w s \<noteq> []"
  by (induction s arbitrary: w) simp_all

lemma split_ws_starts: "\<not> is_space c \<Longrightarrow> split_ws (c # cs) \<noteq> []"
  by (simp add: split_ws_def split_ws_from_pending)

lemma delta_chunks_nonempty: "ws \<noteq> [] \<Longrightarrow> delta_chunks 0 ws \<noteq> []"
  by (subst delta_chunks.simps) simp

lemma str_join_first: "\<exists>r. str_join sep ((c # p) # ps) = c # r"
  by (cases ps) simp_all

lemma ustr_Cons: "ustr (c # s) = of_char c # ustr s"
  by (simp add: ustr_def)

lemma changes_starts: "\<exists>r. template_changes_response n notes labs meds = 66 # r"
  unfolding template_changes_response_def Let_def
  by (simp add: ustr_Cons str_join_first)

lemma medication_starts: "\<exists>r. template_medication_response n meds labs notes = 82 # r"
  unfolding template_medication_response_def Let_def
  by (simp add: ustr_Cons str_join_first split: option.splits)

lemma risk_starts: "\<exists>r. template_risk_response n srcs = 82 # r"
  unfolding template_risk_response_def
  by (simp add: ustr_Cons str_join_first)

lemma generic_starts: "\<exists>r. template_generic_response n srcs = 66 # r"
  unfolding template_generic_response_def Let_def
  by (simp add: ustr_Cons str_join_first)

lemma template_answer_has_word: "split_ws (fst (generate_template_response q n srcs)) \<noteq> []"
proof -
  let ?notes = "filter (\<lambda>s. source_type s = ustr ''note'') srcs"
  let ?labs = "filter (\<lambda>s. source_type s = ustr ''lab'') srcs"
  let ?meds = "filter (\<lambda>s. source_type s = ustr ''med'') srcs"
  have "fst (generate_template_response q n srcs) = template_changes_response n ?notes ?labs ?meds \<or>
        fst (generate_template_response q n srcs) = template_medication_response n ?meds ?labs ?notes \<or>
        fst (generate_template_response q n srcs) = template_risk_response n srcs \<or>
        fst (generate_template_response q n srcs) = template_generic_response n srcs"
    by (simp add: generate_template_response_def Let_def)
  then have "(\<exists>r. fst (generate_template_response q n srcs) = 66 # r) \<or>
             (\<exists>r. fst (generate_template_response q n srcs) = 82 # r)"
    using changes_starts [of n ?notes ?labs ?meds] medication_starts [of n ?meds ?labs ?notes]
      risk_starts [of n srcs] generic_starts [of n srcs]
    by metis
  moreover have "\<not> is_space 66" "\<not> is_space 82" by (simp_all add: is_space_def)
  ultimately show ?thesis using split_ws_starts by metis
qed

lemma forward_deltas_sent:
  "\<exists>ds. snd (forward_deltas evs full_text sent) = sent @ map Delta_event ds"
proof (induction evs full_text sent rule: forward_deltas.induct)
  case (1 full_text sent)
  have "sent = sent @ map Delta_event []" by simp
  then show ?case by (metis forward_deltas.simps(1) snd_conv)
next
  case (2 d evs full_text sent)
  then obtain ds where "snd (forward_deltas evs (full_text @ d) (sent @ [Delta_event d]))
      = (sent @ [Delta_event d]) @ map Delta_event ds" by blast
  then have "snd (forward_deltas (Output_text_delta d # evs) full_text sent)
      = sent @ map Delta_event (d # ds)" by simp
  then show ?case by blast
next
  case (3 evs full_text sent)
  then show ?case by simp
qed

text \<open>The three ways \<open>_stream_with_openai\<close> can end.\<close>

lemma stream_with_openai_shape:
  "(\<exists>ds acts. stream_with_openai e q n srcs =
       (map Source_event srcs @ map Delta_event ds @
        [Actions_event acts,
         Done_event (Some (azure_openai_chat_deployment (get_settings e))) (ustr ''vector'')], None)) \<or>
   (\<exists>err. stream_with_openai e q n srcs = ([], Some err)) \<or>
   (\<exists>ds err. stream_with_openai e q n srcs = (map Source_event srcs @ map Delta_event ds, Some err))"
proof (cases "azure_openai_endpoint (get_settings e)")
  case None
  then show ?thesis by (simp add: stream_with_openai_def)
next
  case (Some endpoint)
  show ?thesis
  proof (cases "new_client e (azure_openai_key (get_settings e)) (base_url_of endpoint)")
    case (Some err)
    with \<open>azure_openai_endpoint (get_settings e) = Some endpoint\<close> show ?thesis
      by (simp add: stream_with_openai_def)
  next
    case None
    let ?request = "\<lparr>req_model = azure_openai_chat_deployment (get_settings e),
                     req_input = snd (build_context_and_prompt q n srcs)\<rparr>"
    note conf = \<open>azure_openai_endpoint (get_settings e) = Some endpoint\<close> None
    show ?thesis
    proof (cases "responses_stream e ?request")
      case (Inl err)
      have "map Source_event srcs = map Source_event srcs @ map Delta_event []" by simp
      with conf Inl have "\<exists>ds. stream_with_openai e q n srcs
          = (map Source_event srcs @ map Delta_event ds, Some err)"
        unfolding stream_with_openai_def Let_def by simp
      then show ?thesis by blast
    next
      case (Inr r)
      obtain api_events failure where r: "r = (api_events, failure)" by (cases r)
      obtain ds where ds: "snd (forward_deltas api_events [] (map Source_event srcs))
          = map Source_event srcs @ map Delta_event ds"
        using forward_deltas_sent by blast
      obtain a acts where p: "parse_llm_response (fst (forward_deltas api_events [] (map Source_event srcs)))
          = Some (a, acts)"
        using parse_llm_response_total by blast
      show ?thesis
      proof (cases failure)
        case None
        with conf Inr r ds p have "stream_with_openai e q n srcs =
            (map Source_event srcs @ map Delta_event ds @
             [Actions_event acts,
              Done_event (Some (azure_openai_chat_deployment (get_settings e))) (ustr ''vector'')], None)"
          by (simp add: stream_with_openai_def Let_def split_beta)
        then show ?thesis by blast
      next
        case (Some err)
        with conf Inr r ds have "stream_with_openai e q n srcs =
            (map Source_event srcs @ map Delta_event ds, Some err)"
          by (simp add: stream_with_openai_def Let_def split_beta)
        then show ?thesis by blast
      qed
    qed
  qed
qed

text \<open>The ways \<open>generate_answer_stream\<close> can end.\<close>

lemma generate_answer_stream_shape:
  "(\<exists>ds acts. generate_answer_stream e q n srcs =
       map Source_event srcs @ map Delta_event ds @
       [Actions_event acts,
        if has_azure_openai (get_settings e)
        then Done_event (Some (azure_openai_chat_deployment (get_settings e))) (ustr ''vector'')
        else Done_event None (ustr ''template'')] \<and>
       (\<not> has_azure_openai (get_settings e) \<longrightarrow> ds \<noteq> [])) \<or>
   (\<exists>err. generate_answer_stream e q n srcs = [Error_event err]) \<or>
   (\<exists>ds err. generate_answer_stream e q n srcs =
       map Source_event srcs @ map Delta_event ds @ [Error_event err])"
proof (cases "has_azure_openai (get_settings e)")
  case False
  let ?ds = "delta_chunks 0 (split_ws (fst (generate_template_response q n srcs)))"
  have "?ds \<noteq> []" by (intro delta_chunks_nonempty template_answer_has_word)
  moreover from False have "generate_answer_stream e q n srcs =
       map Source_event srcs @ map Delta_event ?ds @
       [Actions_event (fst (snd (generate_template_response q n srcs))),
        Done_event None (ustr ''template'')]"
    by (simp add: generate_answer_stream_def split_beta)
  ultimately show ?thesis using False by auto
next
  case True
  from stream_with_openai_shape [of e q n srcs] show ?thesis
  proof (elim disjE exE)
    fix ds acts
    assume "stream_with_openai e q n srcs =
       (map Source_event srcs @ map Delta_event ds @
        [Actions_event acts,
         Done_event (Some (azure_openai_chat_deployment (get_settings e))) (ustr ''vector'')], None)"
    with True have "generate_answer_stream e q n srcs =
       map Source_event srcs @ map Delta_event ds @
       [Actions_event acts,
        Done_event (Some (azure_openai_chat_deployment (get_settings e))) (ustr ''vector'')]"
      by (simp add: generate_answer_stream_def)
    with True show ?thesis by auto
  next
    fix err
    assume "stream_with_openai e q n srcs = ([], Some err)"
    with True have "generate_answer_stream e q n srcs = [Error_event err]"
      by (simp add: generate_answer_stream_def)
    then show ?thesis by blast
  next
    fix ds err
    assume "stream_with_openai e q n srcs = (map Source_event srcs @ map Delta_event ds, Some err)"
    with True have "generate_answer_stream e q n srcs =
        map Source_event srcs @ map Delta_event ds @ [Error_event err]"
      by (simp add: generate_answer_stream_def)
    then show ?thesis by blast
  qed
qed

lemma template_stream_eq:
  "\<not> has_azure_openai (get_settings e) \<Longrightarrow>
   generate_answer_stream e q n srcs =
     map Source_event srcs @
     map Delta_event (delta_chunks 0 (split_ws (fst (generate_template_response q n srcs)))) @
     [Actions_event (fst (snd (generate_template_response q n srcs))),
      Done_event None (ustr ''template'')]"
  by (simp add: generate_answer_stream_def split_beta)

lemma types_sources: "map (type_of \<circ> Source_event) ss = replicate (length ss) Source"
  by (induction ss) simp_all

lemma types_deltas: "map (type_of \<circ> Delta_event) ds = replicate (length ds) Delta"
  by (induction ds) simp_all

lemma sources_sent_sources: "concat (map (source_of \<circ> Source_event) ss) = ss"
  by (induction ss) simp_all

lemma sources_sent_deltas: "concat (map (source_of \<circ> Delta_event) ds) = []"
  by (induction ds) simp_all

lemma generate_stream_invalid:
  "to_sources (fst (retrieve_context e pid (question req) (max_sources req))) = Inl err \<Longrightarrow>
   generate_stream e pid req p = [Error_event err]"
  by (simp add: generate_stream_def split_beta)

lemma generate_stream_valid:
  "to_sources (fst (retrieve_context e pid (question req) (max_sources req))) = Inr srcs \<Longrightarrow>
   generate_stream e pid req p =
     Metadata_event (snd (retrieve_context e pid (question req) (max_sources req))) #
     generate_answer_stream e (question req) (display_name p) srcs"
  by (simp add: generate_stream_def split_beta)

text \<open>
  Claim C1, as the code has it. A stream without an error event is one metadata event,
  then one source event for each retrieved source in retrieval order, then the delta
  events (at least one with the template backend, possibly none with the hosted one), then
  one actions event and one done event. A stream with an error event ends with it, and
  what precedes it is a prefix of metadata, sources, deltas. So the metadata event comes
  before the sources, and every source before every delta.
\<close>

theorem stream_event_order:
  "(Error \<notin> set (map type_of (generate_stream e pid req p)) \<longrightarrow>
      (\<exists>srcs k. to_sources (fst (retrieve_context e pid (question req) (max_sources req))) = Inr srcs \<and>
         map type_of (generate_stream e pid req p) =
           Metadata # replicate (length srcs) Source @ replicate k Delta @ [Actions, Done] \<and>
         sources_sent (generate_stream e pid req p) = srcs \<and>
         (\<not> has_azure_openai (get_settings e) \<longrightarrow> 0 < k))) \<and>
   (Error \<in> set (map type_of (generate_stream e pid req p)) \<longrightarrow>
      (\<exists>pre n k. map type_of (generate_stream e pid req p) = pre @ [Error] \<and>
         prefix pre (Metadata # replicate n Source @ replicate k Delta)))"
proof (cases "to_sources (fst (retrieve_context e pid (question req) (max_sources req)))")
  case (Inl err)
  then have "map type_of (generate_stream e pid req p) = [] @ [Error]"
    by (simp add: generate_stream_invalid)
  then show ?thesis by (metis Nil_prefix in_set_conv_decomp)
next
  case (Inr srcs)
  let ?q = "question req" and ?n = "display_name p"
  let ?m = "Metadata_event (snd (retrieve_context e pid (question req) (max_sources req)))"
  have g: "generate_stream e pid req p = ?m # generate_answer_stream e ?q ?n srcs"
    using Inr by (rule generate_stream_valid)
  from generate_answer_stream_shape [of e ?q ?n srcs] show ?thesis
  proof (elim disjE exE conjE)
    fix ds acts
    assume a: "generate_answer_stream e ?q ?n srcs =
       map Source_event srcs @ map Delta_event ds @
       [Actions_event acts,
        if has_azure_openai (get_settings e)
        then Done_event (Some (azure_openai_chat_deployment (get_settings e))) (ustr ''vector'')
        else Done_event None (ustr ''template'')]"
      and k: "\<not> has_azure_openai (get_settings e) \<longrightarrow> ds \<noteq> []"
    have t: "map type_of (generate_stream e pid req p) =
        Metadata # replicate (length srcs) Source @ replicate (length ds) Delta @ [Actions, Done]"
      unfolding g a by (simp add: types_sources types_deltas)
    have s: "sources_sent (generate_stream e pid req p) = srcs"
      unfolding g a
      by (simp add: sources_sent_def sources_sent_sources sources_sent_deltas)
    have n: "Error \<notin> set (map type_of (generate_stream e pid req p))"
      unfolding t by auto
    from k have k': "\<not> has_azure_openai (get_settings e) \<longrightarrow> 0 < length ds" by simp
    have "\<exists>srcs k. to_sources (fst (retrieve_context e pid (question req) (max_sources req))) = Inr srcs \<and>
         map type_of (generate_stream e pid req p) =
           Metadata # replicate (length srcs) Source @ replicate k Delta @ [Actions, Done] \<and>
         sources_sent (generate_stream e pid req p) = srcs \<and>
         (\<not> has_azure_openai (get_settings e) \<longrightarrow> 0 < k)"
      using Inr t s k' by (intro exI [of _ srcs] exI [of _ "length ds"] conjI)
    with n show ?thesis by simp
  next
    fix err
    assume "generate_answer_stream e ?q ?n srcs = [Error_event err]"
    with g have t: "map type_of (generate_stream e pid req p) = [Metadata] @ [Error]" by simp
    have "prefix [Metadata] (Metadata # replicate 0 Source @ replicate 0 Delta)" by simp
    with t show ?thesis by (metis in_set_conv_decomp)
  next
    fix ds err
    assume "generate_answer_stream e ?q ?n srcs =
       map Source_event srcs @ map Delta_event ds @ [Error_event err]"
    with g have t: "map type_of (generate_stream e pid req p) =
        (Metadata # replicate (length srcs) Source @ replicate (length ds) Delta) @ [Error]"
      by (simp add: types_sources types_deltas)
    have "prefix (Metadata # replicate (length srcs) Source @ replicate (length ds) Delta)
        (Metadata # replicate (length srcs) Source @ replicate (length ds) Delta)" by simp
    with t show ?thesis by (metis in_set_conv_decomp)
  qed
qed

lemma template_stream_types:
  assumes "\<not> has_azure_openai (get_settings e)"
    and "to_sources (fst (retrieve_context e pid (question req) (max_sources req))) = Inr srcs"
  shows "\<exists>k. map type_of (generate_stream e pid req p) =
           Metadata # replicate (length srcs) Source @ replicate k Delta @ [Actions, Done]"
    and "last (generate_stream e pid req p) = Done_event None (ustr ''template'')"
  unfolding generate_stream_valid [OF assms(2)] template_stream_eq [OF assms(1)]
  by (simp_all add: types_sources types_deltas)

lemma example_retrievals:
  "retrieve_context offline_env pid q n =
     ([\<lparr>res_source_type = Some (ustr ''note''), res_source_id = Some 7,
        res_label = Some (ustr ''Progress note''), res_snippet = Some (ustr ''BP  stable''),
        res_score = 0.9, res_metadata = JNull\<rparr>], ustr ''vector'')"
  "retrieve_context hosted_env pid q n = retrieve_context offline_env pid q n"
  "retrieve_context hosted_down_env pid q n = retrieve_context offline_env pid q n"
  "retrieve_context store_down_env pid q n = ([], ustr ''error'')"
  "retrieve_context (hosted_env\<lparr>execute_query := (\<lambda>pid q n. Inr [lab_row])\<rparr>) pid q n =
     ([\<lparr>res_source_type = Some (ustr ''lab''), res_source_id = Some 3,
        res_label = Some (ustr ''Potassium''), res_snippet = Some (ustr ''4.1 mmol/L''),
        res_score = 1, res_metadata = JNull\<rparr>], ustr ''keyword'')"
  by (simp_all add: retrieve_context_def retrieve_attempt_def offline_env_def hosted_env_def
      hosted_down_env_def store_down_env_def note_row_def lab_row_def process_row_def)
    (simp_all add: ustr_def)

lemma example_backends:
  "\<not> has_azure_openai (get_settings offline_env)"
  "\<not> has_azure_openai (get_settings store_down_env)"
  "has_azure_openai (get_settings hosted_env)"
  "has_azure_openai (get_settings hosted_down_env)"
  by (simp_all add: offline_env_def store_down_env_def hosted_env_def hosted_down_env_def
      has_azure_openai_def ustr_def)

text \<open>
  With one retrieved source, the hosted run whose completion holds no text and the
  template run both start with metadata, then the source: neither is in the specified
  order.
\<close>

theorem stream_event_order_counterexample:
  "map type_of (generate_stream hosted_env (ustr ''p1'') example_request \<lparr>display_name = ustr ''Ann''\<rparr>)
     = [Metadata, Source, Actions, Done] \<and>
   \<not> specified_order [Metadata, Source, Actions, Done] \<and>
   Error \<notin> set (map type_of
     (generate_stream offline_env (ustr ''p1'') example_request \<lparr>display_name = ustr ''Ann''\<rparr>)) \<and>
   \<not> specified_order (map type_of
     (generate_stream offline_env (ustr ''p1'') example_request \<lparr>display_name = ustr ''Ann''\<rparr>))"
proof -
  have h: "map type_of (generate_stream hosted_env (ustr ''p1'') example_request \<lparr>display_name = ustr ''Ann''\<rparr>)
     = [Metadata, Source, Actions, Done]"
    by (simp add: generate_stream_def example_retrievals to_source_def generate_answer_stream_def
        example_backends stream_with_openai_def Let_def)
      (simp add: hosted_env_def offline_env_def parse_llm_response_def extract_answer_def
        next_actions_marker_def answer_marker_def ustr_def)
  have s: "\<not> specified_order [Metadata, Source, Actions, Done]"
    by (simp add: specified_order_def)
  obtain src where src: "to_sources (fst (retrieve_context offline_env (ustr ''p1'')
      (question example_request) (max_sources example_request))) = Inr [src]"
    by (simp add: example_retrievals to_source_def)
  from template_stream_types(1) [OF example_backends(1) src, where p = "\<lparr>display_name = ustr ''Ann''\<rparr>"]
  obtain k where t: "map type_of (generate_stream offline_env (ustr ''p1'') example_request
      \<lparr>display_name = ustr ''Ann''\<rparr>) = Metadata # Source # replicate k Delta @ [Actions, Done]"
    by auto
  have "Error \<notin> set (Metadata # Source # replicate k Delta @ [Actions, Done])" by auto
  moreover have "\<not> specified_order (Metadata # Source # replicate k Delta @ [Actions, Done])"
    by (simp add: specified_order_def)
  ultimately show ?thesis using h s unfolding t by (intro conjI)
qed

text \<open>
  A template run without error, and a hosted run whose completion call raises.
\<close>

theorem stream_event_order_witness:
  "Error \<notin> set (map type_of
     (generate_stream offline_env (ustr ''p1'') example_request \<lparr>display_name = ustr ''Ann''\<rparr>)) \<and>
   (\<exists>k. 0 < k \<and> map type_of
     (generate_stream offline_env (ustr ''p1'') example_request \<lparr>display_name = ustr ''Ann''\<rparr>)
       = Metadata # Source # replicate k Delta @ [Actions, Done]) \<and>
   map type_of
     (generate_stream hosted_down_env (ustr ''p1'') example_request \<lparr>display_name = ustr ''Ann''\<rparr>)
       = [Metadata, Source, Error]"
proof -
  let ?off = "generate_stream offline_env (ustr ''p1'') example_request \<lparr>display_name = ustr ''Ann''\<rparr>"
  let ?down = "generate_stream hosted_down_env (ustr ''p1'') example_request \<lparr>display_name = ustr ''Ann''\<rparr>"
  obtain src where src: "to_sources (fst (retrieve_context offline_env (ustr ''p1'')
      (question example_request) (max_sources example_request))) = Inr [src]"
    by (simp add: example_retrievals to_source_def)
  from template_stream_types(1) [OF example_backends(1) src, where p = "\<lparr>display_name = ustr ''Ann''\<rparr>"]
  obtain k' where "map type_of ?off = Metadata # Source # replicate k' Delta @ [Actions, Done]"
    by auto
  then have n: "Error \<notin> set (map type_of ?off)" by (simp only: ) auto
  from stream_event_order [of offline_env "ustr ''p1''" example_request "\<lparr>display_name = ustr ''Ann''\<rparr>"]
    n src example_backends(1)
  have a: "\<exists>k. 0 < k \<and> map type_of ?off = Metadata # Source # replicate k Delta @ [Actions, Done]"
    by auto
  have d: "map type_of ?down = [Metadata, Source, Error]"
    by (simp add: generate_stream_def example_retrievals to_source_def generate_answer_stream_def
        example_backends stream_with_openai_def Let_def)
      (simp add: hosted_down_env_def hosted_env_def offline_env_def)
  from n a d show ?thesis by (intro conjI)
qed

text \<open>
  Claim C2, as the code has it. The done event of a stream is its last event. It
  carries the deployment name and the tag \<open>vector\<close> with the hosted backend, and no model
  and the tag \<open>template\<close> with the template backend: a tag fixed by the backend. The tag
  the retrieval classification produced is in the first event, the metadata event.
\<close>

theorem done_event_payload:
  assumes "Done_event m tag \<in> set (generate_stream e pid req p)"
  shows "(if has_azure_openai (get_settings e)
          then m = Some (azure_openai_chat_deployment (get_settings e)) \<and> tag = ustr ''vector''
          else m = None \<and> tag = ustr ''template'') \<and>
         last (generate_stream e pid req p) = Done_event m tag \<and>
         hd (generate_stream e pid req p) =
           Metadata_event (snd (retrieve_context e pid (question req) (max_sources req)))"
proof (cases "to_sources (fst (retrieve_context e pid (question req) (max_sources req)))")
  case (Inl err)
  with assms show ?thesis by (simp add: generate_stream_invalid)
next
  case (Inr srcs)
  let ?q = "question req" and ?n = "display_name p"
  have g: "generate_stream e pid req p =
      Metadata_event (snd (retrieve_context e pid (question req) (max_sources req))) #
      generate_answer_stream e ?q ?n srcs"
    using Inr by (rule generate_stream_valid)
  with assms have d: "Done_event m tag \<in> set (generate_answer_stream e ?q ?n srcs)" by simp
  from generate_answer_stream_shape [of e ?q ?n srcs] show ?thesis
  proof (elim disjE exE conjE)
    fix ds acts
    assume a: "generate_answer_stream e ?q ?n srcs =
       map Source_event srcs @ map Delta_event ds @
       [Actions_event acts,
        if has_azure_openai (get_settings e)
        then Done_event (Some (azure_openai_chat_deployment (get_settings e))) (ustr ''vector'')
        else Done_event None (ustr ''template'')]"
    from d have "Done_event m tag =
        (if has_azure_openai (get_settings e)
         then Done_event (Some (azure_openai_chat_deployment (get_settings e))) (ustr ''vector'')
         else Done_event None (ustr ''template''))"
      unfolding a by auto
    then show ?thesis unfolding g a by (simp split: if_splits)
  next
    fix err
    assume "generate_answer_stream e ?q ?n srcs = [Error_event err]"
    with d show ?thesis by simp
  next
    fix ds err
    assume "generate_answer_stream e ?q ?n srcs =
       map Source_event srcs @ map Delta_event ds @ [Error_event err]"
    with d show ?thesis by auto
  qed
qed

text \<open>
  The done event of a template run.
\<close>

theorem done_event_payload_witness:
  "Done_event None (ustr ''template'') \<in> set
     (generate_stream offline_env (ustr ''p1'') example_request \<lparr>display_name = ustr ''Ann''\<rparr>) \<and>
   last (generate_stream offline_env (ustr ''p1'') example_request \<lparr>display_name = ustr ''Ann''\<rparr>)
     = Done_event None (ustr ''template'') \<and>
   hd (generate_stream offline_env (ustr ''p1'') example_request \<lparr>display_name = ustr ''Ann''\<rparr>)
     = Metadata_event (ustr ''vector'')"
proof -
  obtain src where src: "to_sources (fst (retrieve_context offline_env (ustr ''p1'')
      (question example_request) (max_sources example_request))) = Inr [src]"
    by (simp add: example_retrievals to_source_def)
  have m: "Done_event None (ustr ''template'') \<in> set
     (generate_stream offline_env (ustr ''p1'') example_request \<lparr>display_name = ustr ''Ann''\<rparr>)"
    unfolding generate_stream_valid [OF src] template_stream_eq [OF example_backends(1)] by simp
  from done_event_payload [OF m] m show ?thesis by (simp add: example_retrievals)
qed

text \<open>
  With the context store down the classification is \<open>error\<close> and the done event says
  \<open>template\<close>; with a hosted model and a lab result only, the classification is
  \<open>keyword\<close> and the done event says \<open>vector\<close>.
\<close>

theorem done_event_payload_counterexample:
  "snd (retrieve_context store_down_env (ustr ''p1'') (question example_request)
          (max_sources example_request)) = ustr ''error'' \<and>
   last (generate_stream store_down_env (ustr ''p1'') example_request \<lparr>display_name = ustr ''Ann''\<rparr>)
     = Done_event None (ustr ''template'') \<and>
   ustr ''template'' \<noteq> ustr ''error'' \<and>
   snd (retrieve_context (hosted_env\<lparr>execute_query := (\<lambda>pid q n. Inr [lab_row])\<rparr>) (ustr ''p1'')
          (question example_request) (max_sources example_request)) = ustr ''keyword'' \<and>
   last (generate_stream (hosted_env\<lparr>execute_query := (\<lambda>pid q n. Inr [lab_row])\<rparr>) (ustr ''p1'')
          example_request \<lparr>display_name = ustr ''Ann''\<rparr>)
     = Done_event (Some (ustr ''gpt-5.2'')) (ustr ''vector'') \<and>
   ustr ''vector'' \<noteq> ustr ''keyword''"
proof -
  have src: "to_sources (fst (retrieve_context store_down_env (ustr ''p1'')
      (question example_request) (max_sources example_request))) = Inr []"
    by (simp add: example_retrievals)
  have a: "last (generate_stream store_down_env (ustr ''p1'') example_request \<lparr>display_name = ustr ''Ann''\<rparr>)
     = Done_event None (ustr ''template'')"
    by (rule template_stream_types(2) [OF example_backends(2) src])
  have b: "last (generate_stream (hosted_env\<lparr>execute_query := (\<lambda>pid q n. Inr [lab_row])\<rparr>) (ustr ''p1'')
          example_request \<lparr>display_name = ustr ''Ann''\<rparr>)
     = Done_event (Some (ustr ''gpt-5.2'')) (ustr ''vector'')"
    by (simp add: generate_stream_def example_retrievals to_source_def generate_answer_stream_def
        stream_with_openai_def Let_def)
      (simp add: hosted_env_def offline_env_def has_azure_openai_def parse_llm_response_def
        extract_answer_def next_actions_marker_def answer_marker_def ustr_def)
  have c: "ustr ''template'' \<noteq> ustr ''error''" "ustr ''vector'' \<noteq> ustr ''keyword''"
    by (simp_all add: ustr_def)
  from a b c show ?thesis by (simp add: example_retrievals)
qed

end
